theory Spec2Isabelle
  imports Complex_Main
begin

section \<open>Strings as the scripts use them\<close>

text \<open>
  JavaScript strings are modelled as HOL strings of ASCII characters. Lower-casing maps
  \<open>A\<close>..\<open>Z\<close> to \<open>a\<close>..\<open>z\<close>; white space is the ASCII white space that \<open>trim\<close> and the
  regular expression class \<open>\s\<close> both accept (space, tab, line feed, vertical tab, form
  feed, carriage return).
\<close>

definition lowerChar :: "char \<Rightarrow> char" where
  "lowerChar c =
     (case map_of (zip ''ABCDEFGHIJKLMNOPQRSTUVWXYZ'' ''abcdefghijklmnopqrstuvwxyz'') c of
        Some d \<Rightarrow> d
      | None \<Rightarrow> c)"

definition toLowerCase :: "string \<Rightarrow> string" where
  "toLowerCase s = map lowerChar s"

definition isSpace :: "char \<Rightarrow> bool" where
  "isSpace c = (c \<in> set [CHR '' '', CHR 0x09, CHR 0x0A, CHR 0x0B, CHR 0x0C, CHR 0x0D])"

definition trim :: "string \<Rightarrow> string" where
  "trim s = rev (dropWhile isSpace (rev (dropWhile isSpace s)))"

fun startsWith :: "string \<Rightarrow> string \<Rightarrow> bool" where
  "startsWith s [] = True"
| "startsWith [] (c # cs) = False"
| "startsWith (x # xs) (c # cs) = (x = c \<and> startsWith xs cs)"

text \<open>\<open>includesStr s sub\<close> is \<open>s.includes(sub)\<close>: \<open>sub\<close> occurs in \<open>s\<close> as a contiguous run.\<close>

fun includesStr :: "string \<Rightarrow> string \<Rightarrow> bool" where
  "includesStr [] sub = (sub = [])"
| "includesStr (x # xs) sub = (startsWith (x # xs) sub \<or> includesStr xs sub)"

text \<open>
  \<open>splitWords s\<close> is \<open>s.split(/\s+/).filter(Boolean)\<close>: the maximal runs of characters that
  are not white space, in order. \<open>splitAcc cur s\<close> carries the run read so far.
\<close>

fun splitAcc :: "string \<Rightarrow> string \<Rightarrow> string list" where
  "splitAcc cur [] = (if cur = [] then [] else [cur])"
| "splitAcc cur (c # cs) =
     (if isSpace c then (if cur = [] then splitAcc [] cs else cur # splitAcc [] cs)
      else splitAcc (cur @ [c]) cs)"

definition splitWords :: "string \<Rightarrow> string list" where
  "splitWords s = splitAcc [] s"

section \<open>The content script: candidates and the relevance scorer\<close>

datatype ctype = Link | Button | Heading

datatype region = Nav | Header | Footer | Upper | Body

text \<open>
  A candidate as \<open>getSearchCandidates\<close> builds it. \<open>c_href\<close> is \<open>None\<close> for JavaScript's
  \<open>null\<close>; \<open>c_element\<close> stands for the reference to the DOM node.
\<close>

record candidate =
  c_type :: ctype
  c_text :: string
  c_href :: "string option"
  c_element :: nat
  c_region :: region
  c_tagName :: string

definition MAX_CANDIDATES :: nat where "MAX_CANDIDATES = 800"
definition MAX_RESULTS :: nat where "MAX_RESULTS = 5"
definition MIN_ACCEPT_SCORE :: int where "MIN_ACCEPT_SCORE = 8"

definition typeName :: "ctype \<Rightarrow> string" where
  "typeName t = (case t of Link \<Rightarrow> ''link'' | Button \<Rightarrow> ''button'' | Heading \<Rightarrow> ''heading'')"

text \<open>\<open>orEmpty h\<close> is \<open>h || ""\<close> for a value that is a string or \<open>null\<close>.\<close>

definition orEmpty :: "string option \<Rightarrow> string" where
  "orEmpty h = (case h of None \<Rightarrow> [] | Some s \<Rightarrow> s)"

definition navKeywords :: "string list" where
  "navKeywords =
     [''portal'', ''login'', ''log in'', ''sign in'', ''account'', ''dashboard'', ''student'',
      ''admissions'', ''apply'', ''register'', ''registration'', ''calendar'', ''schedule'',
      ''billing'', ''payment'', ''pay'', ''contact'', ''support'', ''help'', ''courses'',
      ''classes'', ''portal'']"

text \<open>The body of the \<open>words.forEach\<close> callback: what one query word adds to the score.\<close>

definition wordStep :: "string \<Rightarrow> string \<Rightarrow> string \<Rightarrow> int \<Rightarrow> int" where
  "wordStep txt href w score =
     (let score1 = (if txt = w then score + 7
                    else if includesStr txt w then score + 5 else score)
      in if includesStr href w then score1 + 3 else score1)"

text \<open>The body of the \<open>navKeywords.forEach\<close> callback (no keyword of the list is empty).\<close>

definition keywordStep :: "string \<Rightarrow> string \<Rightarrow> string \<Rightarrow> string \<Rightarrow> int \<Rightarrow> int" where
  "keywordStep q txt href kw score =
     (if kw = [] then score
      else
        let score1 = (if includesStr txt kw \<or> includesStr href kw then score + 2 else score)
        in if includesStr q kw \<and> (includesStr txt kw \<or> includesStr href kw) then score1 + 3 else score1)"

definition regionBonus :: "region \<Rightarrow> int" where
  "regionBonus r = (case r of Nav \<Rightarrow> 11 | Header \<Rightarrow> 6 | Upper \<Rightarrow> 4 | Footer \<Rightarrow> - 5 | Body \<Rightarrow> 0)"

definition isGeneric :: "string \<Rightarrow> bool" where
  "isGeneric t =
     (let l = toLowerCase t
      in includesStr l ''click here'' \<or> includesStr l ''read more'' \<or> includesStr l ''learn more'')"

text \<open>
  \<open>scoreWith kws\<close> is \<open>scoreCandidate\<close> with the keyword list as a parameter; the script's
  \<open>scoreCandidate\<close> is its instance at \<open>navKeywords\<close>.
\<close>

definition scoreWith :: "string list \<Rightarrow> candidate \<Rightarrow> string \<Rightarrow> int" where
  "scoreWith kws candidate query =
     (let q = trim (toLowerCase query)
      in if q = [] then 0
         else
           let txt = toLowerCase (c_text candidate);
               href = toLowerCase (orEmpty (c_href candidate));
               wordList = splitWords q;
               s0 = (0::int);
               s1 = (if txt = q then s0 + 22 else s0);
               s2 = (if includesStr txt q then s1 + 14 else s1);
               s3 = fold (wordStep txt href) wordList s2;
               s4 = (if includesStr href q then s3 + 7 else s3);
               s5 = fold (keywordStep q txt href) kws s4;
               s6 = s5 + regionBonus (c_region candidate);
               s7 = (if c_type candidate = Heading then s6 + 3 else s6);
               len = length (c_text candidate);
               s8 = (if 0 < len \<and> len \<le> 30 then s7 + 5
                     else if 70 < len then s7 - 3 else s7);
               s9 = (if isGeneric (c_text candidate) then s8 - 2 else s8)
           in s9)"

definition scoreCandidate :: "candidate \<Rightarrow> string \<Rightarrow> int" where
  "scoreCandidate candidate query = scoreWith navKeywords candidate query"

text \<open>One entry of the \<open>scored\<close> array of the message listener.\<close>

record scored =
  s_score :: int
  s_type :: ctype
  s_text :: string
  s_href :: "string option"
  s_region :: region
  s_tagName :: string
  s_element :: nat

definition orNull :: "string option \<Rightarrow> string option" where
  "orNull h = (case h of None \<Rightarrow> None | Some s \<Rightarrow> (if s = [] then None else Some s))"

definition mkScored :: "int \<Rightarrow> candidate \<Rightarrow> scored" where
  "mkScored s c =
     \<lparr>s_score = s, s_type = c_type c, s_text = c_text c, s_href = orNull (c_href c),
      s_region = c_region c, s_tagName = c_tagName c, s_element = c_element c\<rparr>"

text \<open>The \<open>for (const c of candidates)\<close> loop: candidates with a positive score, in order.\<close>

fun scoreAll :: "string \<Rightarrow> candidate list \<Rightarrow> scored list" where
  "scoreAll query [] = []"
| "scoreAll query (c # cs) =
     (let s = scoreCandidate c query
      in if 0 < s then mkScored s c # scoreAll query cs else scoreAll query cs)"

text \<open>
  \<open>scored.sort((a, b) => b.score - a.score)\<close>: a stable sort by descending score, here the
  stable insertion sort of the list library on the negated score.
\<close>

definition sortByScore :: "scored list \<Rightarrow> scored list" where
  "sortByScore rs = sort_key (\<lambda>r. - s_score r) rs"

text \<open>
  The \<open>sniffr-search\<close> listener up to the \<open>results\<close> array, for the candidates the page
  scan returned: \<open>(found, results)\<close>. Highlighting and the serialisation of the results
  do not change which results are reported.
\<close>

definition searchResults :: "string \<Rightarrow> candidate list \<Rightarrow> bool \<times> scored list" where
  "searchResults messageQuery candidates =
     (let query = trim messageQuery
      in if query = [] then (False, [])
         else
           let sortedScored = sortByScore (scoreAll query candidates);
               results = take MAX_RESULTS (filter (\<lambda>r. MIN_ACCEPT_SCORE \<le> s_score r) sortedScored)
           in if 0 < length results then (True, results) else (False, []))"


section \<open>The ranking gateway\<close>

text \<open>
  Times are milliseconds since the epoch, as \<open>Date.now()\<close> returns them. A candidate on the
  wire is a JSON object whose \<open>text\<close>, \<open>href\<close> and \<open>type\<close> are strings or absent.
\<close>

record wireCandidate =
  w_text :: "string option"
  w_href :: "string option"
  w_type :: "string option"

text \<open>
  The \<open>index\<close> of a decoded judgment is any JSON value: absent, a number, or a value whose
  \<open>typeof\<close> is not \<open>"number"\<close>. Numbers are rationals; an overflowing literal, which
  \<open>JSON.parse\<close> reads as an infinity, compares as a very large rational does.
\<close>

datatype jsvalue = JUndefined | JNumber rat | JOther

record remoteJudgment =
  j_index :: jsvalue
  j_reason :: string

record cacheValue =
  v_raw :: string
  v_parsed :: "remoteJudgment option"

record cacheEntry =
  e_value :: cacheValue
  e_expiresAt :: int

record rateEntry =
  r_count :: int
  r_resetAt :: int

text \<open>
  The cache key is the \<open>JSON.stringify\<close> of \<open>{q, c: [{t, h}, ...]}\<close>. Two such objects have
  the same serialisation exactly when they are equal, so the key is modelled by the
  object itself: the query and the list of \<open>(t, h)\<close> pairs.
\<close>

type_synonym cacheKey = "string \<times> (string \<times> string) list"

record gateway =
  CACHE :: "cacheKey \<rightharpoonup> cacheEntry"
  RATE :: "string \<rightharpoonup> rateEntry"

definition MAX_PER_WINDOW :: int where "MAX_PER_WINDOW = 120"
definition WINDOW_MS :: int where "WINDOW_MS = 60 * 1000"
definition CACHE_TTL_MS :: int where "CACHE_TTL_MS = 30 * 1000"

record headers =
  x_forwarded_for :: "string option"
  x_real_ip :: "string option"
  remoteAddress :: "string option"

text \<open>\<open>truthy s\<close>: a string-or-absent value that JavaScript takes as true.\<close>

definition truthy :: "string option \<Rightarrow> bool" where
  "truthy v = (case v of None \<Rightarrow> False | Some s \<Rightarrow> s \<noteq> [])"

definition getClientIp :: "headers \<Rightarrow> string" where
  "getClientIp hs =
     (case x_forwarded_for hs of
        Some xf \<Rightarrow>
          if xf \<noteq> [] then trim (takeWhile (\<lambda>c. c \<noteq> CHR '','') xf)
          else if truthy (x_real_ip hs) then orEmpty (x_real_ip hs)
          else if truthy (remoteAddress hs) then orEmpty (remoteAddress hs)
          else ''unknown''
      | None \<Rightarrow>
          if truthy (x_real_ip hs) then orEmpty (x_real_ip hs)
          else if truthy (remoteAddress hs) then orEmpty (remoteAddress hs)
          else ''unknown'')"

definition cacheGet :: "cacheKey \<Rightarrow> int \<Rightarrow> gateway \<Rightarrow> cacheValue option \<times> gateway" where
  "cacheGet key t g =
     (case CACHE g key of
        None \<Rightarrow> (None, g)
      | Some e \<Rightarrow>
          if e_expiresAt e < t then (None, g\<lparr>CACHE := (CACHE g)(key := None)\<rparr>)
          else (Some (e_value e), g))"

definition cacheSet :: "cacheKey \<Rightarrow> cacheValue \<Rightarrow> int \<Rightarrow> int \<Rightarrow> gateway \<Rightarrow> gateway" where
  "cacheSet key v ttl t g =
     g\<lparr>CACHE := (CACHE g)(key \<mapsto> \<lparr>e_value = v, e_expiresAt = t + ttl\<rparr>)\<rparr>"

record rateResult =
  rr_ok :: bool
  rr_remaining :: int
  rr_resetAt :: int

definition rateCheck :: "string \<Rightarrow> int \<Rightarrow> gateway \<Rightarrow> rateResult \<times> gateway" where
  "rateCheck ip t g =
     (case RATE g ip of
        None \<Rightarrow>
          (\<lparr>rr_ok = True, rr_remaining = MAX_PER_WINDOW - 1, rr_resetAt = t + WINDOW_MS\<rparr>,
           g\<lparr>RATE := (RATE g)(ip \<mapsto> \<lparr>r_count = 1, r_resetAt = t + WINDOW_MS\<rparr>)\<rparr>)
      | Some entry \<Rightarrow>
          if r_resetAt entry < t then
            (\<lparr>rr_ok = True, rr_remaining = MAX_PER_WINDOW - 1, rr_resetAt = t + WINDOW_MS\<rparr>,
             g\<lparr>RATE := (RATE g)(ip \<mapsto> \<lparr>r_count = 1, r_resetAt = t + WINDOW_MS\<rparr>)\<rparr>)
          else if MAX_PER_WINDOW \<le> r_count entry then
            (\<lparr>rr_ok = False, rr_remaining = 0, rr_resetAt = r_resetAt entry\<rparr>, g)
          else
            (\<lparr>rr_ok = True, rr_remaining = MAX_PER_WINDOW - (r_count entry + 1),
              rr_resetAt = r_resetAt entry\<rparr>,
             g\<lparr>RATE := (RATE g)(ip \<mapsto> entry\<lparr>r_count := r_count entry + 1\<rparr>)\<rparr>))"

text \<open>What a thrown error is; \<open>handler\<close> answers each of them with a 500 response.\<close>

datatype failure = KeyNotSet | FetchFailed | OpenAIError nat string | TypeError

text \<open>
  \<open>callOpenAI\<close>: \<open>net\<close> stands for the remote inference service, giving for a prompt either
  the failure of the request (a rejected \<open>fetch\<close>, a response that is not 2xx) or the
  assistant's text, \<open>""\<close> when the reply has none. The second component lists the prompts
  that were sent, so that a call which never reaches the service is visible.
\<close>

definition callOpenAI ::
  "string option \<Rightarrow> (string \<Rightarrow> failure + string) \<Rightarrow> string \<Rightarrow> (failure + string) \<times> string list" where
  "callOpenAI OPENAI_KEY net prompt =
     (if \<not> truthy OPENAI_KEY then (Inl KeyNotSet, []) else (net prompt, [prompt]))"

definition dquote :: string where
  "dquote = [CHR 0x22]"

definition replaceNewlines :: "string \<Rightarrow> string" where
  "replaceNewlines s = map (\<lambda>c. if c = CHR 0x0A then CHR '' '' else c) s"

fun showNat :: "nat \<Rightarrow> string" where
  "showNat n =
     (if n < 10 then [''0123456789'' ! n]
      else showNat (n div 10) @ [''0123456789'' ! (n mod 10)])"

declare showNat.simps [simp del]

definition orNoHref :: "string option \<Rightarrow> string" where
  "orNoHref h = (if truthy h then orEmpty h else ''(no href)'')"

text \<open>One line of the prompt; \<open>None\<close> is a \<open>null\<close> element, read as the empty object.\<close>

definition candidateLine :: "nat \<Rightarrow> wireCandidate option \<Rightarrow> string" where
  "candidateLine i co =
     (let c = (case co of
                 None \<Rightarrow> \<lparr>w_text = None, w_href = None, w_type = None\<rparr>
               | Some c' \<Rightarrow> c');
          label = take 240 (replaceNewlines (orEmpty (w_text c)));
          href = orNoHref (w_href c)
      in showNat i @ '' | '' @ orEmpty (w_type c) @ '' | '' @ dquote @ label @ dquote
         @ '' | '' @ href)"

definition promptLines :: "string \<Rightarrow> wireCandidate option list \<Rightarrow> string list" where
  "promptLines query candidates =
     [''User query: '' @ dquote @ replaceNewlines query @ dquote,
      ''Candidates (index | type | label | href):'']
     @ map (\<lambda>i. candidateLine i (candidates ! i)) [0 ..< min (length candidates) 80]
     @ [''Return JSON ONLY: {'' @ dquote @ ''index'' @ dquote @ '': <best_index_or_-1>, ''
        @ dquote @ ''reason'' @ dquote @ '':'' @ dquote @ ''brief 1-2 sentence reason''
        @ dquote @ ''}'']"

fun joinLines :: "string list \<Rightarrow> string" where
  "joinLines [] = []"
| "joinLines [l] = l"
| "joinLines (l # m # ls) = l @ [CHR 0x0A] @ joinLines (m # ls)"

definition buildPrompt :: "string \<Rightarrow> wireCandidate option list \<Rightarrow> string" where
  "buildPrompt query candidates = joinLines (promptLines query candidates)"

text \<open>
  The cache key of a request: the query and the first 60 candidates reduced to
  \<open>(text || "", href || "")\<close>. Reading \<open>text\<close> of a \<open>null\<close> element throws.
\<close>

fun projectCandidates :: "wireCandidate option list \<Rightarrow> failure + (string \<times> string) list" where
  "projectCandidates [] = Inr []"
| "projectCandidates (None # cs) = Inl TypeError"
| "projectCandidates (Some c # cs) =
     (case projectCandidates cs of
        Inl e \<Rightarrow> Inl e
      | Inr ps \<Rightarrow> Inr ((orEmpty (w_text c), orEmpty (w_href c)) # ps))"

definition cacheKeyOf :: "string \<Rightarrow> wireCandidate option list \<Rightarrow> failure + cacheKey" where
  "cacheKeyOf query candidates =
     (case projectCandidates (take 60 candidates) of
        Inl e \<Rightarrow> Inl e
      | Inr ps \<Rightarrow> Inr (query, ps))"

text \<open>
  The decoding of the assistant's text: the slice from the first \<open>{\<close> to the last \<open>}\<close> is
  handed to \<open>JSON.parse\<close>, here the parameter \<open>decode\<close>, whose \<open>None\<close> is a thrown
  \<open>SyntaxError\<close>.
\<close>

definition indexOf :: "char \<Rightarrow> string \<Rightarrow> nat option" where
  "indexOf ch s = (if ch \<in> set s then Some (length (takeWhile (\<lambda>c. c \<noteq> ch) s)) else None)"

definition lastIndexOf :: "char \<Rightarrow> string \<Rightarrow> nat option" where
  "lastIndexOf ch s =
     (if ch \<in> set s then Some (length s - 1 - length (takeWhile (\<lambda>c. c \<noteq> ch) (rev s)))
      else None)"

definition parseReply :: "(string \<Rightarrow> remoteJudgment option) \<Rightarrow> string \<Rightarrow> remoteJudgment option" where
  "parseReply decode s =
     (case indexOf (CHR ''{'') s of
        None \<Rightarrow> None
      | Some start \<Rightarrow>
          (case lastIndexOf (CHR ''}'') s of
             None \<Rightarrow> None
           | Some end' \<Rightarrow>
               if start \<le> end' then decode (take (end' + 1 - start) (drop start s))
               else None))"

record requestBody =
  b_query :: "string option"
  b_candidates :: "wireCandidate option list option"

record request =
  rq_method :: string
  rq_headers :: headers
  rq_body :: "requestBody option"

datatype payload =
    MethodNotAllowed
  | RateLimitExceeded
  | BadRequest
  | ServerError failure
  | Ranked bool string "remoteJudgment option"

record response =
  status :: nat
  retryAfter :: "int option"
  body :: payload

text \<open>
  The readings of \<open>Date.now()\<close> during one request, in the order they are taken: \<open>now1\<close> in
  \<open>rateCheck\<close>; \<open>now2\<close> for the \<open>Retry-After\<close> header of a rejected request, or else in
  \<open>cacheGet\<close>; \<open>now3\<close> in \<open>cacheSet\<close>, after the remote call has returned.
\<close>

record clock =
  now1 :: int
  now2 :: int
  now3 :: int

text \<open>\<open>Math.ceil(x / d)\<close> for integers \<open>x\<close> and \<open>d > 0\<close>.\<close>

definition ceilDiv :: "int \<Rightarrow> int \<Rightarrow> int" where
  "ceilDiv x d = - ((- x) div d)"

definition respond :: "nat \<Rightarrow> payload \<Rightarrow> response" where
  "respond code p = \<lparr>status = code, retryAfter = None, body = p\<rparr>"

text \<open>
  \<open>handler\<close> returns the response, the prompts sent to the remote service, and the
  gateway's maps as the request leaves them. \<open>Ranked cached raw parsed\<close> is the body
  \<open>{ok: true, cached, raw, parsed}\<close>. The function is written in three parts, in
  the order of the source: \<open>handler\<close> itself up to the check of the body, \<open>rankCached\<close>
  from the cache key to the cache hit, and \<open>rankRemote\<close> from the prompt to the end.
\<close>

definition rankRemote ::
  "string option \<Rightarrow> (string \<Rightarrow> failure + string) \<Rightarrow> (string \<Rightarrow> remoteJudgment option) \<Rightarrow>
   clock \<Rightarrow> string \<Rightarrow> wireCandidate option list \<Rightarrow> cacheKey \<Rightarrow> gateway \<Rightarrow>
   (response \<times> string list) \<times> gateway" where
  "rankRemote OPENAI_KEY net decode clk query candidates key g =
     (case callOpenAI OPENAI_KEY net (buildPrompt query candidates) of
        (Inl e, calls) \<Rightarrow> ((respond 500 (ServerError e), calls), g)
      | (Inr assistantText, calls) \<Rightarrow>
          (let parsed = parseReply decode assistantText;
               result = \<lparr>v_raw = assistantText, v_parsed = parsed\<rparr>
           in ((respond 200 (Ranked False assistantText parsed), calls),
               cacheSet key result CACHE_TTL_MS (now3 clk) g)))"

definition rankCached ::
  "string option \<Rightarrow> (string \<Rightarrow> failure + string) \<Rightarrow> (string \<Rightarrow> remoteJudgment option) \<Rightarrow>
   clock \<Rightarrow> string \<Rightarrow> wireCandidate option list \<Rightarrow> gateway \<Rightarrow>
   (response \<times> string list) \<times> gateway" where
  "rankCached OPENAI_KEY net decode clk query candidates g =
     (case cacheKeyOf query candidates of
        Inl e \<Rightarrow> ((respond 500 (ServerError e), []), g)
      | Inr key \<Rightarrow>
          (case cacheGet key (now2 clk) g of
             (Some cached, g2) \<Rightarrow>
               ((respond 200 (Ranked True (v_raw cached) (v_parsed cached)), []), g2)
           | (None, g2) \<Rightarrow> rankRemote OPENAI_KEY net decode clk query candidates key g2))"

definition handler ::
  "string option \<Rightarrow> (string \<Rightarrow> failure + string) \<Rightarrow> (string \<Rightarrow> remoteJudgment option) \<Rightarrow>
   clock \<Rightarrow> request \<Rightarrow> gateway \<Rightarrow> (response \<times> string list) \<times> gateway" where
  "handler OPENAI_KEY net decode clk req g =
     (if rq_method req \<noteq> ''POST'' then ((respond 405 MethodNotAllowed, []), g)
      else
        (case rateCheck (getClientIp (rq_headers req)) (now1 clk) g of
           (rate, g1) \<Rightarrow>
             (if \<not> rr_ok rate then
                ((\<lparr>status = 429,
                   retryAfter = Some (ceilDiv (rr_resetAt rate - now2 clk) 1000),
                   body = RateLimitExceeded\<rparr>, []), g1)
              else
                (let b = (case rq_body req of
                            None \<Rightarrow> \<lparr>b_query = None, b_candidates = None\<rparr>
                          | Some b' \<Rightarrow> b')
                 in (case b_candidates b of
                       None \<Rightarrow> ((respond 400 BadRequest, []), g1)
                     | Some candidates \<Rightarrow>
                         (if \<not> truthy (b_query b) then ((respond 400 BadRequest, []), g1)
                          else rankCached OPENAI_KEY net decode clk (orEmpty (b_query b))
                                 candidates g1))))))"

text \<open>A well-formed request: a POST whose body holds a query and a list of candidates.\<close>

definition postRequest :: "headers \<Rightarrow> string \<Rightarrow> wireCandidate option list \<Rightarrow> request" where
  "postRequest hs query candidates =
     \<lparr>rq_method = ''POST'', rq_headers = hs,
      rq_body = Some \<lparr>b_query = Some query, b_candidates = Some candidates\<rparr>\<rparr>"

text \<open>A run of requests against one gateway, each with its clock readings and its remote service.\<close>

fun serveAll ::
  "string option \<Rightarrow> (string \<Rightarrow> remoteJudgment option) \<Rightarrow>
   (clock \<times> (string \<Rightarrow> failure + string) \<times> request) list \<Rightarrow> gateway \<Rightarrow>
   (response \<times> string list) list \<times> gateway" where
  "serveAll OPENAI_KEY decode [] g = ([], g)"
| "serveAll OPENAI_KEY decode ((clk, net, req) # evs) g =
     (case handler OPENAI_KEY net decode clk req g of
        (out, g1) \<Rightarrow>
          (case serveAll OPENAI_KEY decode evs g1 of
             (outs, g2) \<Rightarrow> (out # outs, g2)))"

section \<open>The relay and the orchestration in the popup\<close>

text \<open>A promise that was rejected, or resolved with a value.\<close>

datatype 'a promise = Rejected | Resolved 'a

text \<open>
  The relay's answer \<open>{ok, server}\<close>. \<open>proxyToServer\<close> returns the body of the gateway's
  response whatever its status; a failed \<open>fetch\<close> (here \<open>None\<close>) throws and gives
  \<open>{ok: false, error}\<close>.
\<close>

record serverResp =
  sr_ok :: bool
  sr_server :: "payload option"

definition relay :: "response option \<Rightarrow> serverResp" where
  "relay r =
     (case r of
        None \<Rightarrow> \<lparr>sr_ok = False, sr_server = None\<rparr>
      | Some resp \<Rightarrow> \<lparr>sr_ok = True, sr_server = Some (body resp)\<rparr>)"

text \<open>\<open>serverData.parsed\<close> of a body; an error body has none.\<close>

definition parsedOf :: "payload \<Rightarrow> remoteJudgment option" where
  "parsedOf p = (case p of Ranked cached raw parsed \<Rightarrow> parsed | _ \<Rightarrow> None)"

text \<open>
  \<open>candidates[x]\<close> for a number \<open>x\<close>: the element when \<open>x\<close> is an integer inside the array,
  \<open>undefined\<close> (here \<open>None\<close>) otherwise.
\<close>

definition elementAt :: "'a list \<Rightarrow> rat \<Rightarrow> 'a option" where
  "elementAt xs x =
     (if x = of_int \<lfloor>x\<rfloor> \<and> 0 \<le> x \<and> nat \<lfloor>x\<rfloor> < length xs then Some (xs ! nat \<lfloor>x\<rfloor>)
      else None)"

text \<open>
  The content script's answer to a \<open>sniffr-search\<close> message as the popup reads it:
  \<open>found\<close>, \<open>results\<close> (\<open>None\<close> when it is not an array) and the fields of the older
  single-result format. Of a result the popup shows the score, the text and the href.
\<close>

record shown =
  sh_score :: int
  sh_text :: string
  sh_href :: "string option"

record searchReply =
  lr_found :: bool
  lr_results :: "shown list option"
  lr_text :: "string option"
  lr_score :: "int option"
  lr_href :: "string option"

text \<open>The \<open>normalized\<close> object handed to \<open>renderResults\<close>; \<open>None\<close> is an empty answer.\<close>

definition normalize :: "searchReply option \<Rightarrow> bool \<times> shown list" where
  "normalize fallback =
     (case fallback of
        None \<Rightarrow> (False, [])
      | Some f \<Rightarrow>
          (if \<not> lr_found f then (False, [])
           else
             (case lr_results f of
                Some rs \<Rightarrow> (True, rs)
              | None \<Rightarrow>
                  (if truthy (lr_text f) then
                     (True, [\<lparr>sh_score = (case lr_score f of
                                            None \<Rightarrow> 20
                                          | Some sc \<Rightarrow> (if sc = 0 then 20 else sc)),
                              sh_text = orEmpty (lr_text f),
                              sh_href = orNull (lr_href f)\<rparr>])
                   else (False, [])))))"

text \<open>
  What \<open>performSearch\<close> ends with. \<open>LocalFallback q normalized\<close>: the local scorer was
  asked for \<open>q\<close> (a \<open>sniffr-search\<close> message) and its normalized answer is rendered.
  \<open>AIPicked best reason q\<close>: the remote judgment is honoured, \<open>best\<close> is shown with the
  rationale, and the page is asked to highlight \<open>q\<close>. \<open>CouldNotSniff\<close>: an exception reached
  the outer \<open>catch\<close> and the message that the page could not be searched is shown.
  \<open>Ignored\<close>: the query was blank.
\<close>

datatype decision =
    Ignored
  | LocalFallback string "bool \<times> shown list"
  | AIPicked wireCandidate string string
  | CouldNotSniff

text \<open>
  The local-scoring fallback, written four times in the source: \<open>search\<close> is the
  \<open>sniffr-search\<close> message to the tab. It is awaited outside any inner \<open>try\<close>, so its
  rejection reaches the outer \<open>catch\<close>.
\<close>

definition localFallback ::
  "string \<Rightarrow> (string \<Rightarrow> searchReply option promise) \<Rightarrow> decision" where
  "localFallback txt search =
     (case search txt of
        Rejected \<Rightarrow> CouldNotSniff
      | Resolved fallback \<Rightarrow> LocalFallback txt (normalize fallback))"

text \<open>\<open>candidatesResp.candidates.slice(0, 80)\<close>, or \<open>[]\<close> when there is no such array.\<close>

definition truncated :: "wireCandidate list option \<Rightarrow> wireCandidate list" where
  "truncated candidatesResp = (case candidatesResp of None \<Rightarrow> [] | Some cs \<Rightarrow> take 80 cs)"

definition highlightQuery :: "wireCandidate \<Rightarrow> string \<Rightarrow> string" where
  "highlightQuery best txt =
     (if truthy (w_text best) then orEmpty (w_text best)
      else if truthy (w_href best) then orEmpty (w_href best)
      else txt)"

text \<open>
  The test on the parsed judgment and the two branches that follow it. The highlight
  message of the first branch is sent inside an inner \<open>try\<close>: its rejection is ignored.
\<close>

definition resolveJudgment ::
  "string \<Rightarrow> wireCandidate list \<Rightarrow> (string \<Rightarrow> searchReply option promise) \<Rightarrow>
   remoteJudgment option \<Rightarrow> decision" where
  "resolveJudgment txt candidates search parsed =
     (case parsed of
        None \<Rightarrow> localFallback txt search
      | Some j \<Rightarrow>
          (case j_index j of
             JNumber x \<Rightarrow>
               (if 0 \<le> x \<and> x < of_nat (length candidates) then
                  (case elementAt candidates x of
                     None \<Rightarrow> CouldNotSniff
                   | Some best \<Rightarrow> AIPicked best (j_reason j) (highlightQuery best txt))
                else localFallback txt search)
           | _ \<Rightarrow> localFallback txt search))"

text \<open>
  \<open>performSearch\<close>: \<open>tab\<close> is the result of \<open>queryActiveTab\<close>, \<open>candidatesResp\<close> the answer
  to the \<open>sniffr-candidates\<close> message, \<open>search\<close> the \<open>sniffr-search\<close> message to the tab and
  \<open>rank\<close> the \<open>server-rank\<close> message to the relay, a function of the query and the
  candidates sent with it. The elements of the candidate array are objects.
\<close>

definition performSearch ::
  "string \<Rightarrow> nat promise \<Rightarrow> wireCandidate list option promise \<Rightarrow>
   (string \<Rightarrow> searchReply option promise) \<Rightarrow>
   (string \<Rightarrow> wireCandidate list \<Rightarrow> serverResp promise) \<Rightarrow> decision" where
  "performSearch query tab candidatesResp search rank =
     (if trim query = [] then Ignored
      else
        (let txt = trim query
         in (case tab of
               Rejected \<Rightarrow> CouldNotSniff
             | Resolved tabId \<Rightarrow>
                 (case candidatesResp of
                    Rejected \<Rightarrow> localFallback txt search
                  | Resolved cr \<Rightarrow>
                      (let candidates = truncated cr
                       in if candidates = [] then localFallback txt search
                          else
                            (case rank txt candidates of
                               Rejected \<Rightarrow> localFallback txt search
                             | Resolved serverResp \<Rightarrow>
                                 (if \<not> sr_ok serverResp then localFallback txt search
                                  else
                                    (case sr_server serverResp of
                                       None \<Rightarrow> localFallback txt search
                                     | Some serverData \<Rightarrow>
                                         resolveJudgment txt candidates search
                                           (parsedOf serverData)))))))))"

text \<open>
  The request the relay posts for the popup, and the whole path of a \<open>server-rank\<close>
  message through the relay to the gateway and back.
\<close>

definition rankRequest :: "headers \<Rightarrow> string \<Rightarrow> wireCandidate list \<Rightarrow> request" where
  "rankRequest hs query candidates = postRequest hs query (map Some candidates)"

definition serverRank ::
  "string option \<Rightarrow> (string \<Rightarrow> failure + string) \<Rightarrow> (string \<Rightarrow> remoteJudgment option) \<Rightarrow>
   clock \<Rightarrow> headers \<Rightarrow> gateway \<Rightarrow> string \<Rightarrow> wireCandidate list \<Rightarrow> serverResp promise" where
  "serverRank OPENAI_KEY net decode clk hs g query candidates =
     Resolved (relay (Some (fst (fst
       (handler OPENAI_KEY net decode clk (rankRequest hs query candidates) g)))))"

section \<open>The candidate extractor\<close>

text \<open>
  A page is what the three \<open>querySelectorAll\<close> calls return, in document order. Of each
  element the model keeps what the script reads from it: whether \<open>isVisible\<close> holds, the
  result of \<open>extractText\<close>, its \<open>href\<close> (\<open>""\<close> when it has none), the result of
  \<open>getRegion\<close>, its lower-cased tag name, and a number that identifies the node.
\<close>

record element =
  el_visible :: bool
  el_text :: string
  el_href :: string
  el_region :: region
  el_tagName :: string
  el_node :: nat

record page =
  anchors :: "element list"
  buttons :: "element list"
  heads :: "element list"

text \<open>The two variables of \<open>getSearchCandidates\<close>: the array and the set of keys seen.\<close>

record scan =
  candidates :: "candidate list"
  seen :: "string set"

definition candidateKey :: "candidate \<Rightarrow> string" where
  "candidateKey obj =
     typeName (c_type obj) @ ''|'' @ orEmpty (c_href obj) @ ''|'' @ take 60 (c_text obj)"

definition pushCandidate :: "candidate \<Rightarrow> scan \<Rightarrow> scan" where
  "pushCandidate obj sc =
     (if candidateKey obj \<in> seen sc then sc
      else \<lparr>candidates = candidates sc @ [obj], seen = insert (candidateKey obj) (seen sc)\<rparr>)"

definition linkOf :: "element \<Rightarrow> candidate" where
  "linkOf a =
     \<lparr>c_type = Link, c_text = el_text a, c_href = Some (el_href a), c_element = el_node a,
      c_region = el_region a, c_tagName = ''a''\<rparr>"

definition buttonOf :: "element \<Rightarrow> candidate" where
  "buttonOf b =
     \<lparr>c_type = Button, c_text = el_text b,
      c_href = (if el_href b = [] then None else Some (el_href b)), c_element = el_node b,
      c_region = el_region b, c_tagName = el_tagName b\<rparr>"

definition headingOf :: "element \<Rightarrow> candidate" where
  "headingOf h =
     \<lparr>c_type = Heading, c_text = el_text h, c_href = None, c_element = el_node h,
      c_region = el_region h, c_tagName = el_tagName h\<rparr>"

text \<open>
  The three loops. Each one tests the cap only after it has pushed, and \<open>continue\<close>
  skips the test.
\<close>

fun scanAnchors :: "element list \<Rightarrow> scan \<Rightarrow> scan" where
  "scanAnchors [] sc = sc"
| "scanAnchors (a # as) sc =
     (if \<not> el_visible a then scanAnchors as sc
      else if el_text a = [] \<and> el_href a = [] then scanAnchors as sc
      else
        (let sc1 = pushCandidate (linkOf a) sc
         in if MAX_CANDIDATES \<le> length (candidates sc1) then sc1 else scanAnchors as sc1))"

fun scanButtons :: "element list \<Rightarrow> scan \<Rightarrow> scan" where
  "scanButtons [] sc = sc"
| "scanButtons (b # bs) sc =
     (if \<not> el_visible b then scanButtons bs sc
      else if el_text b = [] \<and> el_href b = [] then scanButtons bs sc
      else
        (let sc1 = pushCandidate (buttonOf b) sc
         in if MAX_CANDIDATES \<le> length (candidates sc1) then sc1 else scanButtons bs sc1))"

fun scanHeads :: "element list \<Rightarrow> scan \<Rightarrow> scan" where
  "scanHeads [] sc = sc"
| "scanHeads (h # hs) sc =
     (if \<not> el_visible h then scanHeads hs sc
      else if el_text h = [] then scanHeads hs sc
      else
        (let sc1 = pushCandidate (headingOf h) sc
         in if MAX_CANDIDATES \<le> length (candidates sc1) then sc1 else scanHeads hs sc1))"

definition getSearchCandidates :: "page \<Rightarrow> candidate list" where
  "getSearchCandidates pg =
     candidates (scanHeads (heads pg) (scanButtons (buttons pg) (scanAnchors (anchors pg)
       \<lparr>candidates = [], seen = {}\<rparr>)))"

section \<open>Example inputs\<close>

text \<open>The two candidates of the specification's worked example for the query \<open>billing\<close>.\<close>

definition exampleNav :: candidate where
  "exampleNav =
     \<lparr>c_type = Link, c_text = ''Pay My Bill'', c_href = Some ''/billing'', c_element = 0,
      c_region = Nav, c_tagName = ''a''\<rparr>"

definition exampleFooter :: candidate where
  "exampleFooter =
     \<lparr>c_type = Link, c_text = ''About Us'', c_href = Some ''/about'', c_element = 1,
      c_region = Footer, c_tagName = ''a''\<rparr>"

text \<open>A link into a portal, for the keyword rule.\<close>

definition portalLink :: candidate where
  "portalLink =
     \<lparr>c_type = Link, c_text = ''Student Portal'', c_href = Some ''/portal'', c_element = 2,
      c_region = Body, c_tagName = ''a''\<rparr>"

text \<open>A gateway that has served nothing yet, a client, and clock readings that all agree.\<close>

definition emptyGateway :: gateway where
  "emptyGateway = \<lparr>CACHE = Map.empty, RATE = Map.empty\<rparr>"

definition clientHeaders :: headers where
  "clientHeaders =
     \<lparr>x_forwarded_for = Some ''203.0.113.7, 10.0.0.1'', x_real_ip = None, remoteAddress = None\<rparr>"

definition clockAt :: "int \<Rightarrow> clock" where
  "clockAt t = \<lparr>now1 = t, now2 = t, now3 = t\<rparr>"

text \<open>A remote service that cannot be reached, and a decoder that rejects every text.\<close>

definition noService :: "string \<Rightarrow> failure + string" where
  "noService prompt = Inl FetchFailed"

definition noDecode :: "string \<Rightarrow> remoteJudgment option" where
  "noDecode s = None"

text \<open>A POST without a body, and a gateway in which the client has used up its window.\<close>

definition noBodyRequest :: request where
  "noBodyRequest = \<lparr>rq_method = ''POST'', rq_headers = clientHeaders, rq_body = None\<rparr>"

definition fullGateway :: gateway where
  "fullGateway =
     \<lparr>CACHE = Map.empty,
      RATE = [''203.0.113.7'' \<mapsto> \<lparr>r_count = 120, r_resetAt = 60000\<rparr>]\<rparr>"

text \<open>
  A remote service that answers every prompt with the JSON object \<open>{"index":n}\<close>, and
  what \<open>JSON.parse\<close> makes of that text.
\<close>

definition pickReply :: "nat \<Rightarrow> string" where
  "pickReply n = ''{'' @ dquote @ ''index'' @ dquote @ '':'' @ showNat n @ ''}''"

definition pickService :: "nat \<Rightarrow> string \<Rightarrow> failure + string" where
  "pickService n prompt = Inr (pickReply n)"

definition decodePick :: "nat \<Rightarrow> string \<Rightarrow> remoteJudgment option" where
  "decodePick n s =
     (if s = pickReply n then Some \<lparr>j_index = JNumber (of_nat n), j_reason = []\<rparr> else None)"

definition wireNav :: wireCandidate where
  "wireNav = \<lparr>w_text = Some ''Pay My Bill'', w_href = Some ''/billing'', w_type = Some ''link''\<rparr>"

definition wireFooter :: wireCandidate where
  "wireFooter = \<lparr>w_text = Some ''About Us'', w_href = Some ''/about'', w_type = Some ''link''\<rparr>"

text \<open>A well-formed request for the two example candidates, and the configured key.\<close>

definition billingCandidates :: "wireCandidate option list" where
  "billingCandidates = [Some wireNav, Some wireFooter]"

definition billingRequest :: request where
  "billingRequest = postRequest clientHeaders ''billing'' billingCandidates"

definition testKey :: "string option" where
  "testKey = Some ''sk-test''"

definition afterFirst :: gateway where
  "afterFirst =
     snd (handler testKey (pickService 0) (decodePick 0) (clockAt 1000) billingRequest emptyGateway)"

definition afterSecond :: gateway where
  "afterSecond =
     snd (handler testKey noService (decodePick 0) (clockAt 2000) billingRequest afterFirst)"

text \<open>The answer to \<open>sniffr-candidates\<close> for a page with the two example candidates.\<close>

definition twoCandidates :: "wireCandidate list option" where
  "twoCandidates = Some [wireNav, wireFooter]"

text \<open>
  An active tab, a content script that answers every \<open>sniffr-search\<close> with one result, and
  a page that refuses the message.
\<close>

definition activeTab :: "nat promise" where
  "activeTab = Resolved 1"

definition contentSearch :: "string \<Rightarrow> searchReply option promise" where
  "contentSearch q =
     Resolved (Some \<lparr>lr_found = True,
                      lr_results = Some [\<lparr>sh_score = 33, sh_text = ''Pay My Bill'',
                                          sh_href = Some ''/billing''\<rparr>],
                      lr_text = None, lr_score = None, lr_href = None\<rparr>)"

definition blockedSearch :: "string \<Rightarrow> searchReply option promise" where
  "blockedSearch q = Rejected"

text \<open>
  Two pages whose first 60 links agree and whose 61st link differs, as the popup holds
  them after truncation.
\<close>

definition itemLink :: "nat \<Rightarrow> wireCandidate" where
  "itemLink i =
     \<lparr>w_text = Some (''Item '' @ showNat i), w_href = Some (''/item/'' @ showNat i),
      w_type = Some ''link''\<rparr>"

definition pageA :: "wireCandidate list" where
  "pageA = map itemLink [0 ..< 60] @ [wireNav]"

definition pageB :: "wireCandidate list" where
  "pageB = map itemLink [0 ..< 60] @ [wireFooter]"

text \<open>
  The request that ranks \<open>pageA\<close> for the query \<open>billing\<close>, and the gateway after it has
  served that request as its first one.
\<close>

definition pageARun :: "(clock \<times> (string \<Rightarrow> failure + string) \<times> request) list" where
  "pageARun = [(clockAt 1000, pickService 60, rankRequest clientHeaders ''billing'' pageA)]"

definition afterPageA :: gateway where
  "afterPageA = snd (serveAll testKey (decodePick 60) pageARun emptyGateway)"

text \<open>
  A large page: 800 visible links with different targets, one button and one heading.
\<close>

definition linkEl :: "nat \<Rightarrow> element" where
  "linkEl i =
     \<lparr>el_visible = True, el_text = ''Link'', el_href = ''/'' @ replicate i (CHR ''a''),
      el_region = Body, el_tagName = ''a'', el_node = i\<rparr>"

definition buttonEl :: element where
  "buttonEl =
     \<lparr>el_visible = True, el_text = ''Send'', el_href = [], el_region = Body,
      el_tagName = ''button'', el_node = 800\<rparr>"

definition headEl :: element where
  "headEl =
     \<lparr>el_visible = True, el_text = ''Welcome'', el_href = [], el_region = Upper,
      el_tagName = ''h1'', el_node = 801\<rparr>"

definition bigPage :: page where
  "bigPage = \<lparr>anchors = map linkEl [0 ..< 800], buttons = [buttonEl], heads = [headEl]\<rparr>"

text \<open>
  A footer link whose label is one word of 71 characters, and two links in the body of a
  page: one labelled exactly \<open>Portal\<close>, one whose label and target name several keywords.
\<close>

definition longWord :: string where
  "longWord = replicate 71 (CHR ''x'')"

definition footerExact :: candidate where
  "footerExact =
     \<lparr>c_type = Link, c_text = longWord, c_href = None, c_element = 0, c_region = Footer,
      c_tagName = ''a''\<rparr>"

definition exactPortal :: candidate where
  "exactPortal =
     \<lparr>c_type = Link, c_text = ''Portal'', c_href = Some ''/go'', c_element = 0,
      c_region = Body, c_tagName = ''a''\<rparr>"

definition rivalPortal :: candidate where
  "rivalPortal =
     \<lparr>c_type = Link, c_text = ''Student portal login help'',
      c_href = Some ''/portal/account/dashboard/payment/support/contact'', c_element = 1,
      c_region = Body, c_tagName = ''a''\<rparr>"

section \<open>Auxiliary notions for the proofs\<close>

text \<open>
  What one query word and one keyword add to the score, and the score's rules other than
  the keyword rule as one sum.
\<close>

definition wordBonus :: "string \<Rightarrow> string \<Rightarrow> string \<Rightarrow> int" where
  "wordBonus txt href w =
     (if txt = w then 7 else if includesStr txt w then 5 else 0)
     + (if includesStr href w then 3 else 0)"

definition keywordBonus :: "string \<Rightarrow> string \<Rightarrow> string \<Rightarrow> string \<Rightarrow> int" where
  "keywordBonus q txt href kw =
     (if kw = [] then 0
      else (if includesStr txt kw \<or> includesStr href kw then 2 else 0)
           + (if includesStr q kw \<and> (includesStr txt kw \<or> includesStr href kw) then 3 else 0))"

definition lengthBonus :: "nat \<Rightarrow> int" where
  "lengthBonus len = (if 0 < len \<and> len \<le> 30 then 5 else if 70 < len then - 3 else 0)"

definition otherRules :: "candidate \<Rightarrow> string \<Rightarrow> int" where
  "otherRules c q =
     (if toLowerCase (c_text c) = q then 22 else 0)
     + (if includesStr (toLowerCase (c_text c)) q then 14 else 0)
     + sum_list (map (wordBonus (toLowerCase (c_text c)) (toLowerCase (orEmpty (c_href c))))
                  (splitWords q))
     + (if includesStr (toLowerCase (orEmpty (c_href c))) q then 7 else 0)
     + regionBonus (c_region c)
     + (if c_type c = Heading then 3 else 0)
     + lengthBonus (length (c_text c))
     + (if isGeneric (c_text c) then - 2 else 0)"


text \<open>The client a request is counted for, and what the gateway takes as a malformed body.\<close>

definition clientOf :: "request \<Rightarrow> string" where
  "clientOf req = getClientIp (rq_headers req)"

definition malformed :: "request \<Rightarrow> bool" where
  "malformed req =
     (case rq_body req of
        None \<Rightarrow> True
      | Some b \<Rightarrow> \<not> truthy (b_query b) \<or> b_candidates b = None)"

text \<open>A request event of client \<open>ip\<close> that reads the clock, in \<open>rateCheck\<close>, no later than \<open>R\<close>.\<close>

definition postBy :: "string \<Rightarrow> int \<Rightarrow> clock \<times> (string \<Rightarrow> failure + string) \<times> request \<Rightarrow> bool" where
  "postBy ip R ev =
     (rq_method (snd (snd ev)) = ''POST'' \<and> clientOf (snd (snd ev)) = ip \<and> now1 (fst ev) \<le> R)"

definition statusOf :: "response \<times> string list \<Rightarrow> nat" where
  "statusOf out = status (fst out)"

text \<open>
  \<open>computedFor dec key v ev\<close>: the cache value \<open>v\<close> under \<open>key\<close> is what the request of the
  event \<open>ev\<close> computed. The request carries a query and a candidate list with that key,
  the prompt built from them was answered by the event's remote service with the raw text
  of \<open>v\<close>, and the judgment of \<open>v\<close> is the decoding of that text.
\<close>

definition computedFor ::
  "(string \<Rightarrow> remoteJudgment option) \<Rightarrow> cacheKey \<Rightarrow> cacheValue \<Rightarrow>
   clock \<times> (string \<Rightarrow> failure + string) \<times> request \<Rightarrow> bool" where
  "computedFor dec key v ev =
     (case rq_body (snd (snd ev)) of
        None \<Rightarrow> False
      | Some b \<Rightarrow>
          (case b_candidates b of
             None \<Rightarrow> False
           | Some cs \<Rightarrow>
               cacheKeyOf (orEmpty (b_query b)) cs = Inr key
               \<and> fst (snd ev) (buildPrompt (orEmpty (b_query b)) cs) = Inr (v_raw v)
               \<and> v_parsed v = parseReply dec (v_raw v)))"

section \<open>Properties of the relevance scorer\<close>

subsection \<open>The two loops of the scorer as sums\<close>

lemma wordStep_add: "wordStep txt href w s = s + wordBonus txt href w"
  by (simp add: wordStep_def wordBonus_def Let_def)

lemma keywordStep_add: "keywordStep q txt href kw s = s + keywordBonus q txt href kw"
  by (simp add: keywordStep_def keywordBonus_def Let_def)

lemma fold_wordStep:
  "fold (wordStep txt href) ws s = s + sum_list (map (wordBonus txt href) ws)"
  by (induction ws arbitrary: s) (simp_all add: wordStep_add)

lemma fold_keywordStep:
  "fold (keywordStep q txt href) kws s = s + sum_list (map (keywordBonus q txt href) kws)"
  by (induction kws arbitrary: s) (simp_all add: keywordStep_add)

lemma keywordBonus_nonneg: "0 \<le> keywordBonus q txt href kw"
  by (simp add: keywordBonus_def)

lemma wordBonus_nonneg: "0 \<le> wordBonus txt href w"
  by (simp add: wordBonus_def)

lemma sum_keywordBonus_nonneg: "0 \<le> sum_list (map (keywordBonus q txt href) kws)"
  by (rule sum_list_nonneg) (auto simp: keywordBonus_nonneg)

lemma scoreWith_sum:
  "scoreWith kws c query =
     (if trim (toLowerCase query) = [] then 0
      else otherRules c (trim (toLowerCase query))
           + sum_list (map (keywordBonus (trim (toLowerCase query)) (toLowerCase (c_text c))
                             (toLowerCase (orEmpty (c_href c)))) kws))"
  unfolding scoreWith_def Let_def fold_keywordStep fold_wordStep otherRules_def lengthBonus_def
  by simp

subsection \<open>The worked example\<close>

text \<open>
  C9, as stated, fails: the footer candidate \<open>About Us\<close> does not score at most \<open>-5\<close>.
  Its label has eight characters, so the footer penalty of 5 is cancelled by the bonus of
  5 for a concise label, and its score is 0.
\<close>

theorem example_footer_score_counterexample:
  "\<not> scoreCandidate exampleFooter ''billing'' \<le> - 5"
  by code_simp

text \<open>
  C9, amended: for the query \<open>billing\<close> the nav link \<open>Pay My Bill\<close> scores 33, which is at
  least 18 and above the acceptance threshold 8; the footer link \<open>About Us\<close> scores 0 and
  is excluded because its score is not positive; the local result list holds exactly one
  match, the first candidate.
\<close>

theorem example_billing_scores:
  "scoreCandidate exampleNav ''billing'' = 33
   \<and> 18 \<le> scoreCandidate exampleNav ''billing''
   \<and> MIN_ACCEPT_SCORE < scoreCandidate exampleNav ''billing''
   \<and> scoreCandidate exampleFooter ''billing'' = 0
   \<and> scoreAll ''billing'' [exampleNav, exampleFooter] = [mkScored 33 exampleNav]
   \<and> searchResults ''billing'' [exampleNav, exampleFooter] = (True, [mkScored 33 exampleNav])"
  by code_simp

subsection \<open>The keyword \<open>portal\<close> is listed twice\<close>

lemma navKeywords_sum:
  fixes f :: "string \<Rightarrow> int"
  shows "sum_list (map f navKeywords) = sum_list (map f (remdups navKeywords)) + f ''portal''"
  by (simp add: navKeywords_def)

text \<open>
  C10: the keyword list holds \<open>portal\<close> twice. For a candidate whose lower-cased text or
  href contains \<open>portal\<close>, the two entries together add 4 to the score, and 10 when the
  query contains \<open>portal\<close> too (twice the 2, and twice the extra 3); every other keyword
  of the list that the candidate matches adds 2, and 5 when the query contains it. The
  score is therefore larger, by one whole keyword bonus, than what the list without the
  repetition gives.
\<close>

theorem portal_keyword_counted_twice:
  assumes "includesStr (toLowerCase (c_text c)) ''portal''
           \<or> includesStr (toLowerCase (orEmpty (c_href c))) ''portal''"
    and "trim (toLowerCase query) \<noteq> []"
  shows "fold (keywordStep (trim (toLowerCase query)) (toLowerCase (c_text c))
                 (toLowerCase (orEmpty (c_href c))))
              (filter (\<lambda>kw. kw = ''portal'') navKeywords) s
           = s + 4 + (if includesStr (trim (toLowerCase query)) ''portal'' then 6 else 0)
         \<and> (\<forall>kw \<in> set navKeywords. kw \<noteq> ''portal''
               \<and> (includesStr (toLowerCase (c_text c)) kw
                   \<or> includesStr (toLowerCase (orEmpty (c_href c))) kw) \<longrightarrow>
              fold (keywordStep (trim (toLowerCase query)) (toLowerCase (c_text c))
                     (toLowerCase (orEmpty (c_href c))))
                   (filter (\<lambda>k. k = kw) navKeywords) s
                = s + 2 + (if includesStr (trim (toLowerCase query)) kw then 3 else 0))
         \<and> scoreCandidate c query
             = scoreWith (remdups navKeywords) c query
               + 2 + (if includesStr (trim (toLowerCase query)) ''portal'' then 3 else 0)"
proof (intro conjI)
  let ?q = "trim (toLowerCase query)"
  let ?t = "toLowerCase (c_text c)"
  let ?h = "toLowerCase (orEmpty (c_href c))"
  have portal: "keywordBonus ?q ?t ?h ''portal'' = 2 + (if includesStr ?q ''portal'' then 3 else 0)"
    using assms(1) by (simp add: keywordBonus_def)
  show "fold (keywordStep ?q ?t ?h) (filter (\<lambda>kw. kw = ''portal'') navKeywords) s
          = s + 4 + (if includesStr ?q ''portal'' then 6 else 0)"
    using portal by (simp add: navKeywords_def keywordStep_add)
  show "\<forall>kw \<in> set navKeywords. kw \<noteq> ''portal''
               \<and> (includesStr ?t kw \<or> includesStr ?h kw) \<longrightarrow>
              fold (keywordStep ?q ?t ?h) (filter (\<lambda>k. k = kw) navKeywords) s
                = s + 2 + (if includesStr ?q kw then 3 else 0)"
    by (simp add: navKeywords_def keywordStep_add keywordBonus_def)
  have "sum_list (map (keywordBonus ?q ?t ?h) navKeywords)
          = sum_list (map (keywordBonus ?q ?t ?h) (remdups navKeywords))
            + keywordBonus ?q ?t ?h ''portal''"
    by (rule navKeywords_sum)
  then show "scoreCandidate c query
             = scoreWith (remdups navKeywords) c query
               + 2 + (if includesStr ?q ''portal'' then 3 else 0)"
    using assms(2) portal
    unfolding scoreCandidate_def scoreWith_sum by simp
qed

theorem portal_keyword_counted_twice_witness:
  "includesStr (toLowerCase (c_text portalLink)) ''portal''
   \<and> trim (toLowerCase ''Portal'') \<noteq> []
   \<and> fold (keywordStep ''portal'' ''student portal'' ''/portal'')
            (filter (\<lambda>kw. kw = ''portal'') navKeywords) 0 = 10
   \<and> scoreCandidate portalLink ''Portal''
         = scoreWith (remdups navKeywords) portalLink ''Portal'' + 5"
proof -
  have h1: "includesStr (toLowerCase (c_text portalLink)) ''portal''"
    by code_simp
  have h2: "trim (toLowerCase ''Portal'') \<noteq> []"
    by code_simp
  have q: "trim (toLowerCase ''Portal'') = ''portal''"
    by code_simp
  have t: "toLowerCase (c_text portalLink) = ''student portal''"
    by code_simp
  have h: "toLowerCase (orEmpty (c_href portalLink)) = ''/portal''"
    by code_simp
  have i: "includesStr ''portal'' ''portal''"
    by simp
  show ?thesis
    using portal_keyword_counted_twice [OF disjI1 [OF h1] h2, of 0] h1 h2
    unfolding q t h using i by simp
qed

subsection \<open>Substrings and words\<close>

lemma startsWith_iff: "startsWith s sub = (\<exists>r. s = sub @ r)"
  by (induction s sub rule: startsWith.induct) auto

lemma includesStr_iff: "includesStr s sub = (\<exists>p r. s = p @ sub @ r)"
proof (induction s)
  case Nil
  then show ?case by simp
next
  case (Cons x xs)
  show ?case
  proof
    assume "includesStr (x # xs) sub"
    then consider "startsWith (x # xs) sub" | "includesStr xs sub"
      by auto
    then show "\<exists>p r. x # xs = p @ sub @ r"
    proof cases
      case 1
      then obtain r where "x # xs = sub @ r"
        unfolding startsWith_iff by blast
      then have "x # xs = [] @ sub @ r"
        by simp
      then show ?thesis by blast
    next
      case 2
      then obtain p r where "xs = p @ sub @ r"
        using Cons.IH by blast
      then have "x # xs = (x # p) @ sub @ r"
        by simp
      then show ?thesis by blast
    qed
  next
    assume "\<exists>p r. x # xs = p @ sub @ r"
    then obtain p r where e: "x # xs = p @ sub @ r"
      by blast
    show "includesStr (x # xs) sub"
    proof (cases p)
      case Nil
      then have "startsWith (x # xs) sub"
        using e unfolding startsWith_iff by auto
      then show ?thesis by simp
    next
      case (Cons y p')
      then have "xs = p' @ sub @ r"
        using e by simp
      then have "includesStr xs sub"
        using Cons.IH by blast
      then show ?thesis by simp
    qed
  qed
qed

lemma includesStr_self: "includesStr s s"
  unfolding includesStr_iff by (metis append_Nil append_Nil2)

lemma includesStr_space:
  assumes "includesStr s sub" and "CHR '' '' \<in> set sub"
  shows "\<exists>c \<in> set s. isSpace c"
proof -
  obtain p r where "s = p @ sub @ r"
    using assms(1) unfolding includesStr_iff by blast
  then have "CHR '' '' \<in> set s"
    using assms(2) by simp
  moreover have "isSpace (CHR '' '')"
    by (simp add: isSpace_def)
  ultimately show ?thesis by blast
qed

lemma splitAcc_at_space:
  assumes "isSpace c"
  shows "splitAcc cur (a @ c # b) = splitAcc cur a @ splitAcc [] b"
  using assms by (induction a arbitrary: cur) simp_all

lemma splitAcc_nonempty:
  assumes "cur \<noteq> [] \<or> (\<exists>x \<in> set s. \<not> isSpace x)"
  shows "splitAcc cur s \<noteq> []"
  using assms by (induction s arbitrary: cur) auto

lemma splitAcc_no_space:
  assumes "\<forall>x \<in> set s. \<not> isSpace x" and "cur @ s \<noteq> []"
  shows "splitAcc cur s = [cur @ s]"
  using assms by (induction s arbitrary: cur) auto

lemma splitAcc_word_included:
  assumes "w \<in> set (splitAcc cur s)"
  shows "\<exists>p r. cur @ s = p @ w @ r"
  using assms
proof (induction s arbitrary: cur)
  case Nil
  then have "w = cur"
    by (simp split: if_splits)
  then have "cur @ [] = [] @ w @ []"
    by simp
  then show ?case by blast
next
  case (Cons c cs)
  show ?case
  proof (cases "isSpace c")
    case False
    then have "w \<in> set (splitAcc (cur @ [c]) cs)"
      using Cons.prems by simp
    then obtain p r where "(cur @ [c]) @ cs = p @ w @ r"
      using Cons.IH by blast
    then have "cur @ c # cs = p @ w @ r"
      by simp
    then show ?thesis by blast
  next
    case True
    then consider "w = cur" | "w \<in> set (splitAcc [] cs)"
      using Cons.prems by (auto split: if_splits)
    then show ?thesis
    proof cases
      case 1
      then have "cur @ c # cs = [] @ w @ (c # cs)"
        by simp
      then show ?thesis by blast
    next
      case 2
      then obtain p r where "[] @ cs = p @ w @ r"
        using Cons.IH by blast
      then have "cur @ c # cs = (cur @ c # p) @ w @ r"
        by simp
      then show ?thesis by blast
    qed
  qed
qed

lemma splitWords_included:
  assumes "w \<in> set (splitWords q)"
  shows "includesStr q w"
  using splitAcc_word_included [of w "[]" q] assms
  unfolding includesStr_iff splitWords_def by simp

lemma last_dropWhile:
  assumes "dropWhile P xs \<noteq> []"
  shows "last (dropWhile P xs) = last xs"
  using assms by (induction xs) (auto split: if_splits)

lemma trim_ends:
  assumes "trim s \<noteq> []"
  shows "\<not> isSpace (hd (trim s)) \<and> \<not> isSpace (last (trim s))"
proof -
  let ?d = "dropWhile isSpace s"
  let ?e = "dropWhile isSpace (rev ?d)"
  have e: "?e \<noteq> []"
    using assms by (simp add: trim_def)
  have d: "?d \<noteq> []"
  proof
    assume a: "?d = []"
    have "?e = []"
      unfolding a by simp
    then show False
      using e by contradiction
  qed
  have "last (trim s) = hd ?e"
    using e by (simp add: trim_def last_rev)
  moreover have "\<not> isSpace (hd ?e)"
    using e by (rule hd_dropWhile)
  moreover have "hd (trim s) = last ?e"
    using e by (simp add: trim_def hd_rev)
  moreover have "last ?e = last (rev ?d)"
    using e by (rule last_dropWhile)
  moreover have "last (rev ?d) = hd ?d"
    using d by (simp add: last_rev)
  moreover have "\<not> isSpace (hd ?d)"
    using d by (rule hd_dropWhile)
  ultimately show ?thesis by simp
qed

text \<open>A trimmed, non-empty query is one word, itself, or it splits into at least two.\<close>

lemma splitWords_trimmed:
  assumes "q \<noteq> []" and "\<not> isSpace (hd q)" and "\<not> isSpace (last q)"
  shows "(if \<exists>c \<in> set q. isSpace c then 2 \<le> length (splitWords q) else splitWords q = [q])"
proof (cases "\<exists>c \<in> set q. isSpace c")
  case False
  then show ?thesis
    using assms(1) splitAcc_no_space [of q "[]"] by (simp add: splitWords_def)
next
  case True
  then obtain a c b where q: "q = a @ c # b" and c: "isSpace c"
    by (meson split_list)
  have a: "a \<noteq> []"
    using q c assms(2) by (cases a) auto
  have b: "b \<noteq> []"
    using q c assms(3) by (cases b rule: rev_cases) auto
  have "hd a = hd q"
    using a q by simp
  then have na: "\<exists>x \<in> set a. \<not> isSpace x"
    using a assms(2) by (metis hd_in_set)
  have "last b = last q"
    using b q by simp
  then have nb: "\<exists>x \<in> set b. \<not> isSpace x"
    using b assms(3) by (metis last_in_set)
  have "splitAcc [] a \<noteq> []" "splitAcc [] b \<noteq> []"
    using na nb splitAcc_nonempty by blast+
  then have "2 \<le> length (splitAcc [] a) + length (splitAcc [] b)"
    by (cases "splitAcc [] a"; cases "splitAcc [] b") simp_all
  then have "2 \<le> length (splitWords q)"
    unfolding splitWords_def q splitAcc_at_space [OF c] by simp
  then show ?thesis
    using True by simp
qed

lemma sum_list_lower:
  fixes f :: "'a \<Rightarrow> int"
  assumes "\<forall>x \<in> set xs. c \<le> f x"
  shows "c * int (length xs) \<le> sum_list (map f xs)"
  using assms by (induction xs) (auto simp: algebra_simps)

subsection \<open>Exact matches\<close>

lemma exact_word_sum:
  assumes "q \<noteq> []" and "\<not> isSpace (hd q)" and "\<not> isSpace (last q)"
  shows "7 \<le> sum_list (map (wordBonus q href) (splitWords q))
         \<and> ((\<exists>c \<in> set q. isSpace c) \<longrightarrow> 10 \<le> sum_list (map (wordBonus q href) (splitWords q)))"
proof (cases "\<exists>c \<in> set q. isSpace c")
  case False
  then have "splitWords q = [q]"
    using splitWords_trimmed [OF assms] by simp
  then show ?thesis
    using False by (simp add: wordBonus_def)
next
  case True
  then have l: "2 \<le> length (splitWords q)"
    using splitWords_trimmed [OF assms] by simp
  have "\<forall>w \<in> set (splitWords q). 5 \<le> wordBonus q href w"
    using splitWords_included by (simp add: wordBonus_def)
  then have "5 * int (length (splitWords q)) \<le> sum_list (map (wordBonus q href) (splitWords q))"
    by (rule sum_list_lower)
  then have "10 \<le> sum_list (map (wordBonus q href) (splitWords q))"
    using l by linarith
  then show ?thesis by simp
qed

lemma isGeneric_space:
  assumes "isGeneric t"
  shows "\<exists>c \<in> set (toLowerCase t). isSpace c"
proof -
  consider "includesStr (toLowerCase t) ''click here''"
    | "includesStr (toLowerCase t) ''read more''"
    | "includesStr (toLowerCase t) ''learn more''"
    using assms by (auto simp: isGeneric_def Let_def)
  then show ?thesis
    by cases (erule includesStr_space, simp)+
qed

lemma exact_match_score:
  assumes "toLowerCase (c_text c) = trim (toLowerCase query)"
    and "trim (toLowerCase query) \<noteq> []"
  shows "35 \<le> scoreCandidate c query
         \<and> (c_region c \<noteq> Footer \<or> length (c_text c) \<le> 70
              \<or> 2 \<le> length (splitWords (trim (toLowerCase query)))
            \<longrightarrow> 36 \<le> scoreCandidate c query)"
proof -
  let ?q = "trim (toLowerCase query)"
  let ?h = "toLowerCase (orEmpty (c_href c))"
  define W where "W = sum_list (map (wordBonus ?q ?h) (splitWords ?q))"
  define K where "K = sum_list (map (keywordBonus ?q ?q ?h) navKeywords)"
  define H where "H = (if includesStr ?h ?q then 7 else 0 :: int)"
  define R where "R = regionBonus (c_region c)"
  define T where "T = (if c_type c = Heading then 3 else 0 :: int)"
  define L where "L = lengthBonus (length (c_text c))"
  define G where "G = (if isGeneric (c_text c) then - 2 else 0 :: int)"
  have score: "scoreCandidate c query = 22 + 14 + W + H + R + T + L + G + K"
    unfolding scoreCandidate_def scoreWith_sum otherRules_def W_def K_def H_def R_def T_def
      L_def G_def
    using assms by (simp add: includesStr_self)
  have ends: "\<not> isSpace (hd ?q)" "\<not> isSpace (last ?q)"
    using trim_ends [OF assms(2)] by simp_all
  have w: "7 \<le> W" "(\<exists>c \<in> set ?q. isSpace c) \<longrightarrow> 10 \<le> W"
    using exact_word_sum [OF assms(2) ends, of ?h] unfolding W_def by simp_all
  have k: "0 \<le> K"
    unfolding K_def by (rule sum_keywordBonus_nonneg)
  have h: "0 \<le> H" and t: "0 \<le> T"
    by (simp_all add: H_def T_def)
  have r: "- 5 \<le> R" "c_region c \<noteq> Footer \<longrightarrow> 0 \<le> R"
    by (cases "c_region c"; simp add: R_def regionBonus_def)+
  have l: "- 3 \<le> L" "length (c_text c) \<le> 70 \<longrightarrow> 0 \<le> L"
    by (simp_all add: L_def lengthBonus_def)
  have g: "- 2 \<le> G" "G = 0 \<or> 10 \<le> W"
  proof -
    show "- 2 \<le> G"
      by (simp add: G_def)
    show "G = 0 \<or> 10 \<le> W"
    proof (cases "isGeneric (c_text c)")
      case True
      then have "\<exists>c \<in> set ?q. isSpace c"
        using isGeneric_space [of "c_text c"] assms(1) by simp
      then show ?thesis
        using w(2) by simp
    next
      case False
      then show ?thesis
        by (simp add: G_def)
    qed
  qed
  have two: "2 \<le> length (splitWords ?q) \<longrightarrow> 10 \<le> W"
  proof
    assume a: "2 \<le> length (splitWords ?q)"
    have "\<exists>c \<in> set ?q. isSpace c"
    proof (rule ccontr)
      assume "\<not> (\<exists>c \<in> set ?q. isSpace c)"
      then have "splitWords ?q = [?q]"
        using splitWords_trimmed [OF assms(2) ends] by simp
      then show False
        using a by simp
    qed
    then show "10 \<le> W"
      using w(2) by simp
  qed
  have low: "35 \<le> scoreCandidate c query"
    unfolding score using w(1) k h t r(1) l(1) g by linarith
  have high: "36 \<le> scoreCandidate c query"
    if "c_region c \<noteq> Footer \<or> length (c_text c) \<le> 70 \<or> 2 \<le> length (splitWords ?q)"
    unfolding score using that w(1) k h t r l g two by linarith
  show ?thesis
    using low high by blast
qed

lemma scoreAll_member:
  assumes "c \<in> set cs" and "0 < scoreCandidate c query"
  shows "mkScored (scoreCandidate c query) c \<in> set (scoreAll query cs)"
  using assms by (induction cs) (auto simp: Let_def)

lemma ranked_sorted:
  "sorted (map (\<lambda>r. - s_score r) (filter P (sortByScore rs)))"
  unfolding sortByScore_def by (rule sorted_filter) (rule sorted_sort_key)

lemma searchResults_snd:
  assumes "trim messageQuery \<noteq> []"
  shows "snd (searchResults messageQuery cands)
           = take MAX_RESULTS (filter (\<lambda>r. MIN_ACCEPT_SCORE \<le> s_score r)
                                 (sortByScore (scoreAll (trim messageQuery) cands)))"
  using assms by (simp add: searchResults_def Let_def)

lemma ranked_above_lower_scores:
  assumes "e \<in> set cands" and "MIN_ACCEPT_SCORE \<le> scoreCandidate e (trim messageQuery)"
    and "trim messageQuery \<noteq> []"
    and "i < length (snd (searchResults messageQuery cands))"
    and "s_score (snd (searchResults messageQuery cands) ! i) < scoreCandidate e (trim messageQuery)"
  shows "\<exists>j < i. snd (searchResults messageQuery cands) ! j
                    = mkScored (scoreCandidate e (trim messageQuery)) e"
proof -
  let ?s = "scoreCandidate e (trim messageQuery)"
  let ?E = "mkScored ?s e"
  define L where "L = filter (\<lambda>r. MIN_ACCEPT_SCORE \<le> s_score r)
                        (sortByScore (scoreAll (trim messageQuery) cands))"
  have rs: "snd (searchResults messageQuery cands) = take MAX_RESULTS L"
    unfolding L_def by (rule searchResults_snd [OF assms(3)])
  have sE: "s_score ?E = ?s"
    by (simp add: mkScored_def)
  have "0 < ?s"
    using assms(2) by (simp add: MIN_ACCEPT_SCORE_def)
  then have "?E \<in> set (scoreAll (trim messageQuery) cands)"
    using assms(1) by (rule scoreAll_member [rotated])
  then have "?E \<in> set L"
    using assms(2) sE by (simp add: L_def sortByScore_def)
  then obtain k where k: "k < length L" "L ! k = ?E"
    by (auto simp: in_set_conv_nth)
  have i: "i < length L" "i < MAX_RESULTS" "take MAX_RESULTS L ! i = L ! i"
    using assms(4) unfolding rs by simp_all
  have lt: "s_score (L ! i) < ?s"
    using assms(5) i(3) unfolding rs by simp
  have srt: "sorted (map (\<lambda>r. - s_score r) L)"
    unfolding L_def by (rule ranked_sorted)
  have ki: "k < i"
  proof (rule ccontr)
    assume "\<not> k < i"
    then have "i \<le> k"
      by simp
    then have "map (\<lambda>r. - s_score r) L ! i \<le> map (\<lambda>r. - s_score r) L ! k"
      using srt k(1) by (intro sorted_nth_mono) simp_all
    then have "?s \<le> s_score (L ! i)"
      using k i(1) sE by simp
    then show False
      using lt by simp
  qed
  then have "take MAX_RESULTS L ! k = ?E"
    using k(2) i(2) by simp
  then show ?thesis
    using ki unfolding rs by blast
qed

text \<open>
  C8, as stated, fails in both parts. A footer link whose label is a single word of 71
  characters scores 35 for the query that equals its label: 22 + 14 for the exact match
  and the substring, 7 for the one word, less 5 for the footer and 3 for the long label.
  And for the query \<open>portal\<close> a link of the same region whose label is not the query but
  names several keywords scores 62, above the 58 of the link labelled \<open>Portal\<close>, and is
  listed first.
\<close>

theorem exact_match_counterexample:
  "toLowerCase (c_text footerExact) = trim (toLowerCase longWord)
   \<and> scoreCandidate footerExact longWord = 35
   \<and> toLowerCase (c_text exactPortal) = trim (toLowerCase ''portal'')
   \<and> toLowerCase (c_text rivalPortal) \<noteq> trim (toLowerCase ''portal'')
   \<and> c_region rivalPortal = c_region exactPortal
   \<and> scoreCandidate exactPortal ''portal'' = 58
   \<and> scoreCandidate rivalPortal ''portal'' = 62
   \<and> map s_text (snd (searchResults ''portal'' [exactPortal, rivalPortal]))
       = [''Student portal login help'', ''Portal'']"
  by code_simp

text \<open>
  C8, amended: a candidate whose lower-cased text equals the lower-cased, trimmed query
  scores at least 35, and at least 36 unless it lies in the footer, its label is longer
  than 70 characters and the query is a single word. In the result list it stands above
  every result whose score is lower than its own; the order is by score alone, whatever
  the region and whether or not the other label is an exact match.
\<close>

theorem exact_match_score_and_rank:
  assumes "toLowerCase (c_text e) = trim (toLowerCase (trim messageQuery))"
    and "trim (toLowerCase (trim messageQuery)) \<noteq> []"
    and "e \<in> set cands"
  shows "35 \<le> scoreCandidate e (trim messageQuery)
         \<and> (c_region e \<noteq> Footer \<or> length (c_text e) \<le> 70
              \<or> 2 \<le> length (splitWords (trim (toLowerCase (trim messageQuery))))
            \<longrightarrow> 36 \<le> scoreCandidate e (trim messageQuery))
         \<and> (\<forall>i < length (snd (searchResults messageQuery cands)).
               s_score (snd (searchResults messageQuery cands) ! i)
                 < scoreCandidate e (trim messageQuery)
               \<longrightarrow> (\<exists>j < i. snd (searchResults messageQuery cands) ! j
                               = mkScored (scoreCandidate e (trim messageQuery)) e))"
proof -
  note sc = exact_match_score [OF assms(1,2)]
  have q: "trim messageQuery \<noteq> []"
  proof
    assume a: "trim messageQuery = []"
    have "trim (toLowerCase (trim messageQuery)) = []"
      unfolding a by (simp add: toLowerCase_def trim_def)
    then show False
      using assms(2) by contradiction
  qed
  have m: "MIN_ACCEPT_SCORE \<le> scoreCandidate e (trim messageQuery)"
    using sc by (simp add: MIN_ACCEPT_SCORE_def)
  show ?thesis
    using sc ranked_above_lower_scores [OF assms(3) m q] by blast
qed

theorem exact_match_score_and_rank_witness:
  "toLowerCase (c_text exactPortal) = trim (toLowerCase (trim '' Portal ''))
   \<and> trim (toLowerCase (trim '' Portal '')) \<noteq> []
   \<and> exactPortal \<in> set [rivalPortal, exactPortal]
   \<and> 35 \<le> scoreCandidate exactPortal (trim '' Portal '')
   \<and> 36 \<le> scoreCandidate exactPortal (trim '' Portal '')"
proof -
  have a: "toLowerCase (c_text exactPortal) = trim (toLowerCase (trim '' Portal ''))"
    by code_simp
  have b: "trim (toLowerCase (trim '' Portal '')) \<noteq> []"
    by code_simp
  have c: "exactPortal \<in> set [rivalPortal, exactPortal]"
    by simp
  have r: "c_region exactPortal \<noteq> Footer"
    by (simp add: exactPortal_def)
  show ?thesis
    using exact_match_score_and_rank [OF a b c] a b c r by blast
qed

section \<open>Properties of the gateway\<close>

subsection \<open>Which part of the state each step touches\<close>

lemma cacheGet_RATE: "RATE (snd (cacheGet key t g)) = RATE g"
  by (simp add: cacheGet_def split: option.splits)

lemma cacheSet_RATE: "RATE (cacheSet key v ttl t g) = RATE g"
  by (simp add: cacheSet_def)

lemma rateCheck_CACHE: "CACHE (snd (rateCheck ip t g)) = CACHE g"
  by (simp add: rateCheck_def split: option.splits)

lemma rankRemote_RATE:
  "RATE (snd (rankRemote K net dec clk q cs key g)) = RATE g"
  by (simp add: rankRemote_def cacheSet_RATE Let_def split: prod.splits sum.splits)

lemma rankRemote_status:
  "status (fst (fst (rankRemote K net dec clk q cs key g))) \<noteq> 429"
  by (simp add: rankRemote_def respond_def Let_def split: prod.splits sum.splits)

lemma rankCached_RATE:
  "RATE (snd (rankCached K net dec clk q cs g)) = RATE g"
proof (cases "cacheKeyOf q cs")
  case (Inl e)
  then show ?thesis by (simp add: rankCached_def)
next
  case (Inr key)
  obtain r g2 where cg: "cacheGet key (now2 clk) g = (r, g2)"
    by (cases "cacheGet key (now2 clk) g")
  then have "RATE g2 = RATE g"
    using cacheGet_RATE [of key "now2 clk" g] by simp
  then show ?thesis
    using Inr cg by (cases r) (simp_all add: rankCached_def rankRemote_RATE)
qed

lemma rankCached_status:
  "status (fst (fst (rankCached K net dec clk q cs g))) \<noteq> 429"
  by (simp add: rankCached_def respond_def rankRemote_status
           split: prod.splits sum.splits option.splits)

lemma handler_RATE:
  assumes "rq_method req = ''POST''"
  shows "RATE (snd (handler K net dec clk req g))
           = RATE (snd (rateCheck (clientOf req) (now1 clk) g))"
proof -
  obtain rate g1 where rc: "rateCheck (clientOf req) (now1 clk) g = (rate, g1)"
    by (cases "rateCheck (clientOf req) (now1 clk) g")
  show ?thesis
    using assms rc
    by (simp add: handler_def clientOf_def Let_def rankCached_RATE split: option.splits)
qed

lemma handler_429:
  assumes "rq_method req = ''POST''"
  shows "(status (fst (fst (handler K net dec clk req g))) = 429)
           = (\<not> rr_ok (fst (rateCheck (clientOf req) (now1 clk) g)))"
proof -
  obtain rate g1 where rc: "rateCheck (clientOf req) (now1 clk) g = (rate, g1)"
    by (cases "rateCheck (clientOf req) (now1 clk) g")
  show ?thesis
    using assms rc
    by (simp add: handler_def clientOf_def Let_def rankCached_status respond_def
             split: option.splits)
qed

lemma ceilDiv_bounds:
  assumes "0 < d"
  shows "(ceilDiv x d - 1) * d < x \<and> x \<le> ceilDiv x d * d"
proof -
  define a where "a = (- x) div d"
  define m where "m = (- x) mod d"
  have e: "a * d + m = - x"
    unfolding a_def m_def by simp
  have b: "0 \<le> m" "m < d"
    using assms unfolding m_def by simp_all
  have "(- a - 1) * d = - (a * d) - d"
    by (simp add: algebra_simps)
  moreover have "- a * d = - (a * d)"
    by simp
  ultimately have "(- a - 1) * d < x \<and> x \<le> - a * d"
    using e b by linarith
  then show ?thesis
    unfolding ceilDiv_def a_def .
qed

subsection \<open>The steps of the rate window\<close>

lemma rateCheck_restart:
  assumes "RATE g ip = None \<or> (\<exists>e. RATE g ip = Some e \<and> r_resetAt e < t)"
  shows "rr_ok (fst (rateCheck ip t g))
         \<and> RATE (snd (rateCheck ip t g)) ip = Some \<lparr>r_count = 1, r_resetAt = t + WINDOW_MS\<rparr>"
  using assms by (auto simp: rateCheck_def)

lemma rateCheck_count:
  assumes "RATE g ip = Some \<lparr>r_count = k, r_resetAt = R\<rparr>" and "t \<le> R" and "k < MAX_PER_WINDOW"
  shows "rr_ok (fst (rateCheck ip t g))
         \<and> RATE (snd (rateCheck ip t g)) ip = Some \<lparr>r_count = k + 1, r_resetAt = R\<rparr>"
  using assms by (simp add: rateCheck_def)

lemma rateCheck_reject:
  assumes "RATE g ip = Some \<lparr>r_count = k, r_resetAt = R\<rparr>" and "t \<le> R" and "MAX_PER_WINDOW \<le> k"
  shows "\<not> rr_ok (fst (rateCheck ip t g)) \<and> snd (rateCheck ip t g) = g"
  using assms by (simp add: rateCheck_def)

lemma serveAll_Cons:
  "serveAll K dec ((clk, net, req) # evs) g
     = (fst (handler K net dec clk req g) # fst (serveAll K dec evs (snd (handler K net dec clk req g))),
        snd (serveAll K dec evs (snd (handler K net dec clk req g))))"
  by (simp split: prod.splits)

lemma serveAll_append:
  "serveAll K dec (xs @ ys) g
     = (fst (serveAll K dec xs g) @ fst (serveAll K dec ys (snd (serveAll K dec xs g))),
        snd (serveAll K dec ys (snd (serveAll K dec xs g))))"
proof (induction xs arbitrary: g)
  case Nil
  then show ?case by simp
next
  case (Cons ev xs)
  obtain clk net req where ev: "ev = (clk, net, req)"
    by (cases ev)
  show ?case
    unfolding ev append_Cons serveAll_Cons Cons.IH by simp
qed

lemma serveAll_length: "length (fst (serveAll K dec evs g)) = length evs"
proof (induction evs arbitrary: g)
  case Nil
  then show ?case by simp
next
  case (Cons ev evs)
  obtain clk net req where ev: "ev = (clk, net, req)"
    by (cases ev)
  show ?case
    unfolding ev serveAll_Cons using Cons.IH by simp
qed

lemma serve_within_window:
  assumes "RATE g ip = Some \<lparr>r_count = k, r_resetAt = R\<rparr>"
    and "list_all (postBy ip R) evs"
    and "k + int (length evs) \<le> MAX_PER_WINDOW"
  shows "list_all (\<lambda>out. statusOf out \<noteq> 429) (fst (serveAll K dec evs g))
         \<and> RATE (snd (serveAll K dec evs g)) ip
             = Some \<lparr>r_count = k + int (length evs), r_resetAt = R\<rparr>"
  using assms
proof (induction evs arbitrary: g k)
  case Nil
  then show ?case by simp
next
  case (Cons ev evs)
  obtain clk net req where ev: "ev = (clk, net, req)"
    by (cases ev)
  have post: "rq_method req = ''POST''" and ip: "clientOf req = ip" and t: "now1 clk \<le> R"
    using Cons.prems(2) ev by (simp_all add: postBy_def)
  have k: "k < MAX_PER_WINDOW"
    using Cons.prems(3) by simp
  obtain out g1 where h: "handler K net dec clk req g = (out, g1)"
    by (cases "handler K net dec clk req g")
  have rc: "rr_ok (fst (rateCheck ip (now1 clk) g))"
    "RATE (snd (rateCheck ip (now1 clk) g)) ip = Some \<lparr>r_count = k + 1, r_resetAt = R\<rparr>"
    using rateCheck_count [OF Cons.prems(1) t k] by simp_all
  have st: "statusOf out \<noteq> 429"
    using handler_429 [OF post, of K net dec clk g] h ip rc(1) by (simp add: statusOf_def)
  have g1: "RATE g1 ip = Some \<lparr>r_count = k + 1, r_resetAt = R\<rparr>"
    using handler_RATE [OF post, of K net dec clk g] h ip rc(2) by simp
  have rest: "list_all (postBy ip R) evs" "k + 1 + int (length evs) \<le> MAX_PER_WINDOW"
    using Cons.prems(2,3) by simp_all
  have ih: "list_all (\<lambda>out. statusOf out \<noteq> 429) (fst (serveAll K dec evs g1))
         \<and> RATE (snd (serveAll K dec evs g1)) ip
             = Some \<lparr>r_count = k + 1 + int (length evs), r_resetAt = R\<rparr>"
    by (rule Cons.IH [OF g1 rest])
  show ?case
    unfolding ev serveAll_Cons using h st ih by (simp add: add.assoc)
qed

subsection \<open>Malformed requests\<close>

text \<open>
  C3, as stated, fails: a POST without a body is answered with 400, but the rate check
  ran before the body was looked at, and the client's window now holds a count of 1
  where the gateway had no entry for the client.
\<close>

theorem malformed_request_counterexample:
  "malformed noBodyRequest
   \<and> status (fst (fst (handler None noService noDecode (clockAt 1000) noBodyRequest emptyGateway)))
       = 400
   \<and> RATE emptyGateway ''203.0.113.7'' = None
   \<and> RATE (snd (handler None noService noDecode (clockAt 1000) noBodyRequest emptyGateway))
        ''203.0.113.7''
       = Some \<lparr>r_count = 1, r_resetAt = 61000\<rparr>"
  by code_simp

text \<open>
  C3, amended: a POST request that passes the rate check and whose body is malformed
  (no body, no query, an empty query, or candidates that are not a list) is rejected with
  a 400 response; no remote call is made and the cache is the same after the request as
  before it. The state is left as the rate check left it: the client's rate window has
  been counted up, or restarted, and differs from the one before the request.
\<close>

theorem malformed_request:
  assumes "rq_method req = ''POST''"
    and "rr_ok (fst (rateCheck (clientOf req) (now1 clk) g))"
    and "malformed req"
  shows "handler K net dec clk req g
           = ((respond 400 BadRequest, []), snd (rateCheck (clientOf req) (now1 clk) g))
         \<and> CACHE (snd (handler K net dec clk req g)) = CACHE g
         \<and> RATE (snd (handler K net dec clk req g)) (clientOf req)
             = Some (case RATE g (clientOf req) of
                       None \<Rightarrow> \<lparr>r_count = 1, r_resetAt = now1 clk + WINDOW_MS\<rparr>
                     | Some e \<Rightarrow>
                         if r_resetAt e < now1 clk
                         then \<lparr>r_count = 1, r_resetAt = now1 clk + WINDOW_MS\<rparr>
                         else e\<lparr>r_count := r_count e + 1\<rparr>)
         \<and> RATE (snd (handler K net dec clk req g)) (clientOf req) \<noteq> RATE g (clientOf req)"
proof -
  obtain rate g1 where rc: "rateCheck (clientOf req) (now1 clk) g = (rate, g1)"
    by (cases "rateCheck (clientOf req) (now1 clk) g")
  have ok: "rr_ok rate"
    using assms(2) rc by simp
  have h: "handler K net dec clk req g = ((respond 400 BadRequest, []), g1)"
    using assms(1,3) rc ok
    by (auto simp: handler_def clientOf_def malformed_def Let_def split: option.splits)
  have c: "CACHE g1 = CACHE g"
    using rateCheck_CACHE [of "clientOf req" "now1 clk" g] rc by simp
  have r: "RATE g1 (clientOf req)
             = Some (case RATE g (clientOf req) of
                       None \<Rightarrow> \<lparr>r_count = 1, r_resetAt = now1 clk + WINDOW_MS\<rparr>
                     | Some e \<Rightarrow>
                         if r_resetAt e < now1 clk
                         then \<lparr>r_count = 1, r_resetAt = now1 clk + WINDOW_MS\<rparr>
                         else e\<lparr>r_count := r_count e + 1\<rparr>)"
    using rc ok by (auto simp: rateCheck_def split: option.splits if_splits)
  have n: "RATE g1 (clientOf req) \<noteq> RATE g (clientOf req)"
  proof (cases "RATE g (clientOf req)")
    case None
    then show ?thesis using r by simp
  next
    case (Some e)
    show ?thesis
    proof (cases "r_resetAt e < now1 clk")
      case True
      then have "r_resetAt \<lparr>r_count = 1, r_resetAt = now1 clk + WINDOW_MS\<rparr> \<noteq> r_resetAt e"
        by (simp add: WINDOW_MS_def)
      then have "\<lparr>r_count = 1, r_resetAt = now1 clk + WINDOW_MS\<rparr> \<noteq> e"
        by blast
      then show ?thesis using r Some True by simp
    next
      case False
      have "r_count (e\<lparr>r_count := r_count e + 1\<rparr>) \<noteq> r_count e"
        by simp
      then have "e\<lparr>r_count := r_count e + 1\<rparr> \<noteq> e"
        by metis
      then show ?thesis using r Some False by simp
    qed
  qed
  show ?thesis
    using h c r n rc by simp
qed

theorem malformed_request_witness:
  "rq_method noBodyRequest = ''POST''
   \<and> rr_ok (fst (rateCheck (clientOf noBodyRequest) (now1 (clockAt 1000)) emptyGateway))
   \<and> malformed noBodyRequest
   \<and> fst (handler None noService noDecode (clockAt 1000) noBodyRequest emptyGateway)
       = (respond 400 BadRequest, [])
   \<and> CACHE (snd (handler None noService noDecode (clockAt 1000) noBodyRequest emptyGateway))
       = CACHE emptyGateway"
proof -
  have p: "rq_method noBodyRequest = ''POST''"
    by (simp add: noBodyRequest_def)
  have r: "rr_ok (fst (rateCheck (clientOf noBodyRequest) (now1 (clockAt 1000)) emptyGateway))"
    by (simp add: rateCheck_def emptyGateway_def)
  have m: "malformed noBodyRequest"
    by (simp add: malformed_def noBodyRequest_def)
  show ?thesis
    using malformed_request [OF p r m, of None noService noDecode] p r m
    by (simp add: rateCheck_CACHE)
qed

subsection \<open>Requests over the ceiling\<close>

text \<open>
  C4, as stated, fails: a client whose window holds 120 requests is answered with 429, and
  the rejected request leaves the client's window exactly as it was, count included.
\<close>

theorem rate_limited_request_counterexample:
  "status (fst (fst (handler None noService noDecode (clockAt 1000) noBodyRequest fullGateway)))
     = 429
   \<and> RATE fullGateway ''203.0.113.7'' = Some \<lparr>r_count = 120, r_resetAt = 60000\<rparr>
   \<and> RATE (snd (handler None noService noDecode (clockAt 1000) noBodyRequest fullGateway))
        ''203.0.113.7''
       = Some \<lparr>r_count = 120, r_resetAt = 60000\<rparr>"
  by code_simp

text \<open>
  C4, amended: a POST request from a client whose rate window has not elapsed and whose
  count has reached the ceiling is rejected with a 429 response; its \<open>Retry-After\<close> is the
  time from the second clock reading to the window's reset, in seconds, rounded up; no
  remote call is made, and the gateway's state, the client's rate counter included, is
  left exactly as it was.
\<close>

theorem rate_limited_request:
  assumes "rq_method req = ''POST''"
    and "RATE g (clientOf req) = Some entry"
    and "MAX_PER_WINDOW \<le> r_count entry"
    and "now1 clk \<le> r_resetAt entry"
  shows "handler K net dec clk req g
           = ((\<lparr>status = 429,
                retryAfter = Some (ceilDiv (r_resetAt entry - now2 clk) 1000),
                body = RateLimitExceeded\<rparr>, []), g)
         \<and> (ceilDiv (r_resetAt entry - now2 clk) 1000 - 1) * 1000 < r_resetAt entry - now2 clk
         \<and> r_resetAt entry - now2 clk \<le> ceilDiv (r_resetAt entry - now2 clk) 1000 * 1000"
  using assms ceilDiv_bounds [of 1000 "r_resetAt entry - now2 clk"]
  by (simp add: handler_def rateCheck_def clientOf_def)

theorem rate_limited_request_witness:
  "rq_method noBodyRequest = ''POST''
   \<and> RATE fullGateway (clientOf noBodyRequest) = Some \<lparr>r_count = 120, r_resetAt = 60000\<rparr>
   \<and> MAX_PER_WINDOW \<le> r_count \<lparr>r_count = 120, r_resetAt = 60000\<rparr>
   \<and> now1 (clockAt 1000) \<le> r_resetAt \<lparr>r_count = 120, r_resetAt = 60000\<rparr>
   \<and> handler None noService noDecode (clockAt 1000) noBodyRequest fullGateway
       = ((\<lparr>status = 429, retryAfter = Some 59, body = RateLimitExceeded\<rparr>, []), fullGateway)"
proof -
  have p: "rq_method noBodyRequest = ''POST''"
    by (simp add: noBodyRequest_def)
  have ip: "clientOf noBodyRequest = ''203.0.113.7''"
    by code_simp
  have e: "RATE fullGateway (clientOf noBodyRequest) = Some \<lparr>r_count = 120, r_resetAt = 60000\<rparr>"
    unfolding ip by (simp add: fullGateway_def)
  have m: "MAX_PER_WINDOW \<le> r_count \<lparr>r_count = 120, r_resetAt = 60000\<rparr>"
    by (simp add: MAX_PER_WINDOW_def)
  have t: "now1 (clockAt 1000) \<le> r_resetAt \<lparr>r_count = 120, r_resetAt = 60000\<rparr>"
    by (simp add: clockAt_def)
  have c: "ceilDiv (r_resetAt \<lparr>r_count = 120, r_resetAt = 60000\<rparr> - now2 (clockAt 1000)) 1000 = 59"
    by (simp add: ceilDiv_def clockAt_def)
  show ?thesis
    using rate_limited_request [OF p e m t, of None noService noDecode] p e m t
    unfolding c by simp
qed

subsection \<open>One request more than the ceiling\<close>

text \<open>
  C5: a client starts a window with a first request (it has no window yet, or its last one
  has elapsed) and sends 120 more POST requests before the window's reset time. Whatever
  the bodies of these 121 requests are and whatever the remote service answers, none of
  the first 120 is answered with 429 and the 121st is. A further request after the reset
  time is not answered with 429, and it leaves the client with a new window whose count
  is 1.
\<close>

theorem rate_window_ceiling:
  assumes "RATE g ip = None \<or> (\<exists>e. RATE g ip = Some e \<and> r_resetAt e < now1 clk0)"
    and "rq_method req0 = ''POST''" and "clientOf req0 = ip"
    and "length evs = 120"
    and "list_all (postBy ip (now1 clk0 + WINDOW_MS)) evs"
    and "rq_method reqL = ''POST''" and "clientOf reqL = ip"
    and "now1 clk0 + WINDOW_MS < now1 clkL"
  shows "length (fst (serveAll K dec ((clk0, net0, req0) # evs) g)) = 121
         \<and> list_all (\<lambda>out. statusOf out \<noteq> 429)
              (take 120 (fst (serveAll K dec ((clk0, net0, req0) # evs) g)))
         \<and> statusOf (fst (serveAll K dec ((clk0, net0, req0) # evs) g) ! 120) = 429
         \<and> statusOf (fst (handler K netL dec clkL reqL
                            (snd (serveAll K dec ((clk0, net0, req0) # evs) g)))) \<noteq> 429
         \<and> RATE (snd (handler K netL dec clkL reqL
                         (snd (serveAll K dec ((clk0, net0, req0) # evs) g)))) ip
             = Some \<lparr>r_count = 1, r_resetAt = now1 clkL + WINDOW_MS\<rparr>"
proof -
  let ?R = "now1 clk0 + WINDOW_MS"
  define g1 where "g1 = snd (handler K net0 dec clk0 req0 g)"
  define out0 where "out0 = fst (handler K net0 dec clk0 req0 g)"
  define front where "front = butlast evs"
  define ev where "ev = last evs"
  define g2 where "g2 = snd (serveAll K dec front g1)"
  define outs where "outs = fst (serveAll K dec front g1)"
  obtain clk net req where ev3: "ev = (clk, net, req)"
    by (cases ev)
  define out where "out = fst (handler K net dec clk req g2)"
  define g3 where "g3 = snd (handler K net dec clk req g2)"
  have evs: "evs = front @ [(clk, net, req)]"
    using assms(4) unfolding front_def ev3 [symmetric] ev_def
    by (cases evs rule: rev_cases) simp_all
  have lf: "length front = 119"
    using assms(4) by (simp add: front_def)
  have pf: "list_all (postBy ip ?R) front" and pe: "postBy ip ?R (clk, net, req)"
    using assms(5) unfolding evs by simp_all
  have run: "serveAll K dec ((clk0, net0, req0) # evs) g = (out0 # outs @ [out], g3)"
    unfolding evs serveAll_Cons serveAll_append
    by (simp add: out0_def outs_def out_def g1_def g2_def g3_def)
  have lo: "length outs = 119"
    unfolding outs_def serveAll_length lf ..
  \<comment> \<open>the first request starts the window\<close>
  have r0: "rr_ok (fst (rateCheck ip (now1 clk0) g))"
    "RATE (snd (rateCheck ip (now1 clk0) g)) ip = Some \<lparr>r_count = 1, r_resetAt = ?R\<rparr>"
    using rateCheck_restart [OF assms(1)] by simp_all
  have s0: "statusOf out0 \<noteq> 429"
    using handler_429 [OF assms(2), of K net0 dec clk0 g] assms(3) r0(1)
    by (simp add: statusOf_def out0_def)
  have e1: "RATE g1 ip = Some \<lparr>r_count = 1, r_resetAt = ?R\<rparr>"
    using handler_RATE [OF assms(2), of K net0 dec clk0 g] assms(3) r0(2)
    by (simp add: g1_def)
  \<comment> \<open>the next 119 requests are counted\<close>
  have w: "list_all (\<lambda>out. statusOf out \<noteq> 429) outs
           \<and> RATE g2 ip = Some \<lparr>r_count = 1 + int (length front), r_resetAt = ?R\<rparr>"
    unfolding outs_def g2_def
    by (rule serve_within_window [OF e1 pf]) (simp add: lf MAX_PER_WINDOW_def)
  have e2: "RATE g2 ip = Some \<lparr>r_count = 120, r_resetAt = ?R\<rparr>"
    using w lf by simp
  \<comment> \<open>the 121st is rejected and changes nothing\<close>
  have post: "rq_method req = ''POST''" and ip: "clientOf req = ip" and t: "now1 clk \<le> ?R"
    using pe by (simp_all add: postBy_def)
  have rj: "\<not> rr_ok (fst (rateCheck ip (now1 clk) g2))" "snd (rateCheck ip (now1 clk) g2) = g2"
    using rateCheck_reject [OF e2 t] by (simp_all add: MAX_PER_WINDOW_def)
  have s: "statusOf out = 429"
    using handler_429 [OF post, of K net dec clk g2] ip rj(1)
    by (simp add: statusOf_def out_def)
  have e3: "RATE g3 ip = Some \<lparr>r_count = 120, r_resetAt = ?R\<rparr>"
    using handler_RATE [OF post, of K net dec clk g2] ip rj(2) e2
    by (simp add: g3_def)
  \<comment> \<open>a request after the reset time starts a new window\<close>
  have rL: "rr_ok (fst (rateCheck ip (now1 clkL) g3))"
    "RATE (snd (rateCheck ip (now1 clkL) g3)) ip
       = Some \<lparr>r_count = 1, r_resetAt = now1 clkL + WINDOW_MS\<rparr>"
    using rateCheck_restart [of g3 ip "now1 clkL"] e3 assms(8) by simp_all
  have sL: "statusOf (fst (handler K netL dec clkL reqL g3)) \<noteq> 429"
    using handler_429 [OF assms(6), of K netL dec clkL g3] assms(7) rL(1)
    by (simp add: statusOf_def)
  have eL: "RATE (snd (handler K netL dec clkL reqL g3)) ip
              = Some \<lparr>r_count = 1, r_resetAt = now1 clkL + WINDOW_MS\<rparr>"
    using handler_RATE [OF assms(6), of K netL dec clkL g3] assms(7) rL(2) by simp
  have n: "(out0 # outs @ [out]) ! 120 = out"
    using lo by (simp add: nth_append)
  have tk: "take 120 (out0 # outs @ [out]) = out0 # outs"
    using lo by simp
  show ?thesis
    unfolding run fst_conv snd_conv n tk
    using lo s0 w s sL eL by simp
qed

theorem rate_window_ceiling_witness:
  "RATE emptyGateway ''203.0.113.7'' = None
   \<and> length (replicate 120 (clockAt 2000, noService, noBodyRequest)) = 120
   \<and> list_all (postBy ''203.0.113.7'' (now1 (clockAt 1000) + WINDOW_MS))
        (replicate 120 (clockAt 2000, noService, noBodyRequest))
   \<and> now1 (clockAt 1000) + WINDOW_MS < now1 (clockAt 61001)
   \<and> statusOf (fst (serveAll None noDecode
         ((clockAt 1000, noService, noBodyRequest)
          # replicate 120 (clockAt 2000, noService, noBodyRequest)) emptyGateway) ! 120) = 429
   \<and> RATE (snd (handler None noService noDecode (clockAt 61001) noBodyRequest
         (snd (serveAll None noDecode
            ((clockAt 1000, noService, noBodyRequest)
             # replicate 120 (clockAt 2000, noService, noBodyRequest)) emptyGateway))))
        ''203.0.113.7''
       = Some \<lparr>r_count = 1, r_resetAt = 121001\<rparr>"
proof -
  have a: "RATE emptyGateway ''203.0.113.7'' = None
           \<or> (\<exists>e. RATE emptyGateway ''203.0.113.7'' = Some e \<and> r_resetAt e < now1 (clockAt 1000))"
    by (simp add: emptyGateway_def)
  have p: "rq_method noBodyRequest = ''POST''"
    by (simp add: noBodyRequest_def)
  have ip: "clientOf noBodyRequest = ''203.0.113.7''"
    by code_simp
  have l: "length (replicate 120 (clockAt 2000, noService, noBodyRequest)) = 120"
    by simp
  have w: "list_all (postBy ''203.0.113.7'' (now1 (clockAt 1000) + WINDOW_MS))
             (replicate 120 (clockAt 2000, noService, noBodyRequest))"
    using p ip by (simp add: list_all_iff postBy_def clockAt_def WINDOW_MS_def)
  have t: "now1 (clockAt 1000) + WINDOW_MS < now1 (clockAt 61001)"
    by (simp add: clockAt_def WINDOW_MS_def)
  have v: "now1 (clockAt 61001) + WINDOW_MS = 121001"
    by (simp add: clockAt_def WINDOW_MS_def)
  show ?thesis
    using rate_window_ceiling [OF a p ip l w p ip t, of None noDecode noService noService] a l w t
    unfolding v by (simp add: emptyGateway_def)
qed

subsection \<open>The cache\<close>

lemma handler_wellformed:
  assumes "query \<noteq> []" and "rr_ok (fst (rateCheck (getClientIp hs) (now1 clk) g))"
  shows "handler K net dec clk (postRequest hs query cs) g
           = rankCached K net dec clk query cs (snd (rateCheck (getClientIp hs) (now1 clk) g))"
proof -
  obtain rate g1 where rc: "rateCheck (getClientIp hs) (now1 clk) g = (rate, g1)"
    by (cases "rateCheck (getClientIp hs) (now1 clk) g")
  show ?thesis
    using assms rc
    by (simp add: handler_def postRequest_def truthy_def orEmpty_def)
qed

lemma rankCached_hit:
  assumes "cacheKeyOf query cs = Inr key" and "CACHE g key = Some e"
    and "now2 clk \<le> e_expiresAt e"
  shows "rankCached K net dec clk query cs g
           = ((respond 200 (Ranked True (v_raw (e_value e)) (v_parsed (e_value e))), []), g)"
  using assms by (simp add: rankCached_def cacheGet_def)

lemma rankCached_miss:
  assumes "cacheKeyOf query cs = Inr key"
    and "CACHE g key = None \<or> (\<exists>e. CACHE g key = Some e \<and> e_expiresAt e < now2 clk)"
    and "truthy K" and "net (buildPrompt query cs) = Inr raw"
  shows "fst (rankCached K net dec clk query cs g)
           = (respond 200 (Ranked False raw (parseReply dec raw)), [buildPrompt query cs])
         \<and> CACHE (snd (rankCached K net dec clk query cs g)) key
             = Some \<lparr>e_value = \<lparr>v_raw = raw, v_parsed = parseReply dec raw\<rparr>,
                     e_expiresAt = now3 clk + CACHE_TTL_MS\<rparr>"
  using assms
  by (auto simp: rankCached_def cacheGet_def rankRemote_def callOpenAI_def cacheSet_def Let_def)

text \<open>
  C6: three well-formed requests with the same query and the same candidates, none of them
  rejected by the rate limiter. The first finds no live cache entry and the remote service
  answers it: the response is tagged \<open>cached: false\<close>. The second reads the cache no later
  than 30 s after the first one stored its result: it returns the stored raw text and
  judgment tagged \<open>cached: true\<close> and no prompt is sent to the remote service. The third
  reads the cache later than that: the prompt is sent again and the response, once the
  remote service answers, is tagged \<open>cached: false\<close>.
\<close>

theorem cache_round_trip:
  assumes "query \<noteq> []" and "cacheKeyOf query cs = Inr key" and "truthy K"
    and "rr_ok (fst (rateCheck (getClientIp hs1) (now1 clk1) g0))"
    and "CACHE g0 key = None \<or> (\<exists>e. CACHE g0 key = Some e \<and> e_expiresAt e < now2 clk1)"
    and "net1 (buildPrompt query cs) = Inr raw1"
    and "g1 = snd (handler K net1 dec clk1 (postRequest hs1 query cs) g0)"
    and "rr_ok (fst (rateCheck (getClientIp hs2) (now1 clk2) g1))"
    and "now2 clk2 \<le> now3 clk1 + CACHE_TTL_MS"
    and "g2 = snd (handler K net2 dec clk2 (postRequest hs2 query cs) g1)"
    and "rr_ok (fst (rateCheck (getClientIp hs3) (now1 clk3) g2))"
    and "now3 clk1 + CACHE_TTL_MS < now2 clk3"
    and "net3 (buildPrompt query cs) = Inr raw3"
  shows "fst (handler K net1 dec clk1 (postRequest hs1 query cs) g0)
           = (respond 200 (Ranked False raw1 (parseReply dec raw1)), [buildPrompt query cs])
         \<and> fst (handler K net2 dec clk2 (postRequest hs2 query cs) g1)
             = (respond 200 (Ranked True raw1 (parseReply dec raw1)), [])
         \<and> fst (handler K net3 dec clk3 (postRequest hs3 query cs) g2)
             = (respond 200 (Ranked False raw3 (parseReply dec raw3)), [buildPrompt query cs])"
proof -
  let ?e = "\<lparr>e_value = \<lparr>v_raw = raw1, v_parsed = parseReply dec raw1\<rparr>,
             e_expiresAt = now3 clk1 + CACHE_TTL_MS\<rparr>"
  \<comment> \<open>first request\<close>
  let ?r1 = "snd (rateCheck (getClientIp hs1) (now1 clk1) g0)"
  have h1: "handler K net1 dec clk1 (postRequest hs1 query cs) g0
              = rankCached K net1 dec clk1 query cs ?r1"
    by (rule handler_wellformed [OF assms(1,4)])
  have c1: "CACHE ?r1 key = None \<or> (\<exists>e. CACHE ?r1 key = Some e \<and> e_expiresAt e < now2 clk1)"
    using assms(5) by (simp add: rateCheck_CACHE)
  have m1: "fst (rankCached K net1 dec clk1 query cs ?r1)
              = (respond 200 (Ranked False raw1 (parseReply dec raw1)), [buildPrompt query cs])
            \<and> CACHE (snd (rankCached K net1 dec clk1 query cs ?r1)) key = Some ?e"
    by (rule rankCached_miss [where net = net1, OF assms(2) c1 assms(3,6)])
  have e1: "CACHE g1 key = Some ?e"
    using m1 h1 assms(7) by simp
  \<comment> \<open>second request\<close>
  let ?r2 = "snd (rateCheck (getClientIp hs2) (now1 clk2) g1)"
  have h2: "handler K net2 dec clk2 (postRequest hs2 query cs) g1
              = rankCached K net2 dec clk2 query cs ?r2"
    by (rule handler_wellformed [OF assms(1,8)])
  have c2: "CACHE ?r2 key = Some ?e"
    using e1 by (simp add: rateCheck_CACHE)
  have m2: "rankCached K net2 dec clk2 query cs ?r2
              = ((respond 200 (Ranked True (v_raw (e_value ?e)) (v_parsed (e_value ?e))), []), ?r2)"
    by (rule rankCached_hit [OF assms(2) c2]) (simp add: assms(9))
  have e2: "CACHE g2 key = Some ?e"
    using m2 h2 c2 assms(10) by simp
  \<comment> \<open>third request\<close>
  let ?r3 = "snd (rateCheck (getClientIp hs3) (now1 clk3) g2)"
  have h3: "handler K net3 dec clk3 (postRequest hs3 query cs) g2
              = rankCached K net3 dec clk3 query cs ?r3"
    by (rule handler_wellformed [OF assms(1,11)])
  have c3: "CACHE ?r3 key = None \<or> (\<exists>e. CACHE ?r3 key = Some e \<and> e_expiresAt e < now2 clk3)"
    using e2 assms(12) by (simp add: rateCheck_CACHE)
  have m3: "fst (rankCached K net3 dec clk3 query cs ?r3)
              = (respond 200 (Ranked False raw3 (parseReply dec raw3)), [buildPrompt query cs])
            \<and> CACHE (snd (rankCached K net3 dec clk3 query cs ?r3)) key
                = Some \<lparr>e_value = \<lparr>v_raw = raw3, v_parsed = parseReply dec raw3\<rparr>,
                        e_expiresAt = now3 clk3 + CACHE_TTL_MS\<rparr>"
    by (rule rankCached_miss [where net = net3, OF assms(2) c3 assms(3,13)])
  show ?thesis
    using h1 m1 h2 m2 h3 m3 by simp
qed

theorem cache_round_trip_witness:
  "cacheKeyOf ''billing'' billingCandidates
     = Inr (''billing'', [(''Pay My Bill'', ''/billing''), (''About Us'', ''/about'')])
   \<and> truthy testKey
   \<and> rr_ok (fst (rateCheck (getClientIp clientHeaders) (now1 (clockAt 1000)) emptyGateway))
   \<and> CACHE emptyGateway (''billing'', [(''Pay My Bill'', ''/billing''), (''About Us'', ''/about'')])
       = None
   \<and> rr_ok (fst (rateCheck (getClientIp clientHeaders) (now1 (clockAt 2000)) afterFirst))
   \<and> now2 (clockAt 2000) \<le> now3 (clockAt 1000) + CACHE_TTL_MS
   \<and> rr_ok (fst (rateCheck (getClientIp clientHeaders) (now1 (clockAt 40000)) afterSecond))
   \<and> now3 (clockAt 1000) + CACHE_TTL_MS < now2 (clockAt 40000)
   \<and> fst (handler testKey noService (decodePick 0) (clockAt 2000) billingRequest afterFirst)
       = (respond 200 (Ranked True (pickReply 0) (Some \<lparr>j_index = JNumber 0, j_reason = []\<rparr>)), [])
   \<and> fst (handler testKey (pickService 1) (decodePick 0) (clockAt 40000) billingRequest afterSecond)
       = (respond 200 (Ranked False (pickReply 1) None),
          [buildPrompt ''billing'' billingCandidates])"
proof -
  let ?key = "(''billing'', [(''Pay My Bill'', ''/billing''), (''About Us'', ''/about'')])"
  have q: "''billing'' \<noteq> []"
    by simp
  have k: "cacheKeyOf ''billing'' billingCandidates = Inr ?key"
    by code_simp
  have t: "truthy testKey"
    by code_simp
  have r1: "rr_ok (fst (rateCheck (getClientIp clientHeaders) (now1 (clockAt 1000)) emptyGateway))"
    by code_simp
  have c: "CACHE emptyGateway ?key = None
           \<or> (\<exists>e. CACHE emptyGateway ?key = Some e \<and> e_expiresAt e < now2 (clockAt 1000))"
    by (simp add: emptyGateway_def)
  have n1: "pickService 0 (buildPrompt ''billing'' billingCandidates) = Inr (pickReply 0)"
    by (simp add: pickService_def)
  have g1: "afterFirst
              = snd (handler testKey (pickService 0) (decodePick 0) (clockAt 1000)
                       (postRequest clientHeaders ''billing'' billingCandidates) emptyGateway)"
    by (simp add: afterFirst_def billingRequest_def)
  have r2: "rr_ok (fst (rateCheck (getClientIp clientHeaders) (now1 (clockAt 2000)) afterFirst))"
    by code_simp
  have t2: "now2 (clockAt 2000) \<le> now3 (clockAt 1000) + CACHE_TTL_MS"
    by code_simp
  have g2: "afterSecond
              = snd (handler testKey noService (decodePick 0) (clockAt 2000)
                       (postRequest clientHeaders ''billing'' billingCandidates) afterFirst)"
    by (simp add: afterSecond_def billingRequest_def)
  have r3: "rr_ok (fst (rateCheck (getClientIp clientHeaders) (now1 (clockAt 40000)) afterSecond))"
    by code_simp
  have t3: "now3 (clockAt 1000) + CACHE_TTL_MS < now2 (clockAt 40000)"
    by code_simp
  have n3: "pickService 1 (buildPrompt ''billing'' billingCandidates) = Inr (pickReply 1)"
    by (simp add: pickService_def)
  have p0: "parseReply (decodePick 0) (pickReply 0) = Some \<lparr>j_index = JNumber 0, j_reason = []\<rparr>"
    by code_simp
  have p1: "parseReply (decodePick 0) (pickReply 1) = None"
    by code_simp
  show ?thesis
    using cache_round_trip [where ?net1.0 = "pickService 0" and ?net3.0 = "pickService 1"
        and ?net2.0 = noService, OF q k t r1 c n1 g1 r2 t2 g2 r3 t3 n3] k t r1 c r2 t2 r3 t3
    unfolding p0 p1 billingRequest_def [symmetric]
    by (simp add: emptyGateway_def)
qed

section \<open>Properties of the orchestration\<close>

lemma resolveJudgment_fallback:
  assumes "parsed = None
           \<or> (\<exists>j. parsed = Some j
                 \<and> (j_index j = JUndefined \<or> j_index j = JNumber (- 1)
                     \<or> (\<exists>x. j_index j = JNumber x \<and> of_nat (length cands) \<le> x)))"
  shows "resolveJudgment txt cands search parsed = localFallback txt search"
  using assms by (auto simp: resolveJudgment_def)

text \<open>
  C2: the active tab is known and the relay returns a server answer whose parsed judgment
  is absent, has no \<open>index\<close>, has the index \<open>-1\<close>, or has an index that is at least the
  length of the truncated candidate list that was sent. Then \<open>performSearch\<close> does what it
  does for an absent judgment: it runs the local-scoring fallback, sending the
  \<open>sniffr-search\<close> message with the user's query. When the content script answers, its
  normalized results are rendered; when the page refuses the message, the fallback itself
  has failed and the outer \<open>catch\<close> shows that the page could not be searched; that
  rejected message is the only exception on this path, and it is caught. In neither case
  is the candidate list read at the judgment's index, and no candidate is picked.
\<close>

theorem out_of_range_judgment_falls_back:
  assumes "trim query \<noteq> []"
    and "rank (trim query) (truncated cr) = Resolved sr"
    and "sr_server sr = Some serverData"
    and "parsedOf serverData = None
         \<or> (\<exists>j. parsedOf serverData = Some j
               \<and> (j_index j = JUndefined \<or> j_index j = JNumber (- 1)
                   \<or> (\<exists>x. j_index j = JNumber x \<and> of_nat (length (truncated cr)) \<le> x)))"
  shows "performSearch query (Resolved tabId) (Resolved cr) search rank
           = (case search (trim query) of
                Rejected \<Rightarrow> CouldNotSniff
              | Resolved fallback \<Rightarrow> LocalFallback (trim query) (normalize fallback))
         \<and> performSearch query (Resolved tabId) (Resolved cr) search rank
             = performSearch query (Resolved tabId) (Resolved cr) search
                 (\<lambda>q cs. Resolved \<lparr>sr_ok = True, sr_server = Some (Ranked False [] None)\<rparr>)"
proof -
  have a: "performSearch query (Resolved tabId) (Resolved cr) search rank
             = localFallback (trim query) search"
    using assms(1,2,3) resolveJudgment_fallback [OF assms(4), of "trim query" search]
    by (simp add: performSearch_def Let_def)
  have b: "performSearch query (Resolved tabId) (Resolved cr) search
             (\<lambda>q cs. Resolved \<lparr>sr_ok = True, sr_server = Some (Ranked False [] None)\<rparr>)
             = localFallback (trim query) search"
    using assms(1)
    by (simp add: performSearch_def Let_def parsedOf_def resolveJudgment_def)
  show ?thesis
    unfolding a b by (simp add: localFallback_def)
qed

theorem out_of_range_judgment_falls_back_witness:
  "trim ''billing '' \<noteq> []
   \<and> serverRank testKey (pickService 2) (decodePick 2) (clockAt 1000) clientHeaders emptyGateway
        (trim ''billing '') (truncated twoCandidates)
       = Resolved \<lparr>sr_ok = True,
                   sr_server = Some (Ranked False (pickReply 2)
                                       (Some \<lparr>j_index = JNumber 2, j_reason = []\<rparr>))\<rparr>
   \<and> of_nat (length (truncated twoCandidates)) \<le> (2::rat)
   \<and> performSearch ''billing '' activeTab (Resolved twoCandidates) contentSearch
        (serverRank testKey (pickService 2) (decodePick 2) (clockAt 1000) clientHeaders emptyGateway)
       = LocalFallback ''billing''
           (True, [\<lparr>sh_score = 33, sh_text = ''Pay My Bill'', sh_href = Some ''/billing''\<rparr>])
   \<and> performSearch ''billing '' activeTab (Resolved twoCandidates) blockedSearch
        (serverRank testKey (pickService 2) (decodePick 2) (clockAt 1000) clientHeaders emptyGateway)
       = CouldNotSniff"
proof -
  let ?j = "\<lparr>j_index = JNumber 2, j_reason = []\<rparr>"
  let ?sr = "\<lparr>sr_ok = True, sr_server = Some (Ranked False (pickReply 2) (Some ?j))\<rparr>"
  let ?rank = "serverRank testKey (pickService 2) (decodePick 2) (clockAt 1000) clientHeaders
                 emptyGateway"
  have q: "trim ''billing '' \<noteq> []"
    by code_simp
  have t: "trim ''billing '' = ''billing''"
    by code_simp
  have r: "?rank (trim ''billing '') (truncated twoCandidates) = Resolved ?sr"
    by code_simp
  have s: "sr_server ?sr = Some (Ranked False (pickReply 2) (Some ?j))"
    by simp
  have l: "of_nat (length (truncated twoCandidates)) \<le> (2::rat)"
    by (simp add: truncated_def twoCandidates_def)
  have p: "parsedOf (Ranked False (pickReply 2) (Some ?j)) = None
           \<or> (\<exists>j. parsedOf (Ranked False (pickReply 2) (Some ?j)) = Some j
                 \<and> (j_index j = JUndefined \<or> j_index j = JNumber (- 1)
                     \<or> (\<exists>x. j_index j = JNumber x
                            \<and> of_nat (length (truncated twoCandidates)) \<le> x)))"
    using l by (simp add: parsedOf_def)
  have c: "(case contentSearch ''billing'' of
              Rejected \<Rightarrow> CouldNotSniff
            | Resolved fallback \<Rightarrow> LocalFallback ''billing'' (normalize fallback))
           = LocalFallback ''billing''
               (True, [\<lparr>sh_score = 33, sh_text = ''Pay My Bill'', sh_href = Some ''/billing''\<rparr>])"
    by (simp add: contentSearch_def normalize_def)
  have b: "(case blockedSearch ''billing'' of
              Rejected \<Rightarrow> CouldNotSniff
            | Resolved fallback \<Rightarrow> LocalFallback ''billing'' (normalize fallback))
           = CouldNotSniff"
    by (simp add: blockedSearch_def)
  show ?thesis
    using out_of_range_judgment_falls_back
            [where rank = ?rank and search = contentSearch and tabId = 1, OF q r s p]
          out_of_range_judgment_falls_back
            [where rank = ?rank and search = blockedSearch and tabId = 1, OF q r s p]
          q r l
    unfolding t c b activeTab_def by simp
qed

subsection \<open>Which list a judgment was computed for\<close>

lemma handler_ranked:
  assumes "body (fst (fst (handler K net dec clk (postRequest hs q cs) g))) = Ranked cached raw p"
  shows "if cached
         then snd (fst (handler K net dec clk (postRequest hs q cs) g)) = []
              \<and> (\<exists>key e. cacheKeyOf q cs = Inr key \<and> CACHE g key = Some e
                     \<and> e_value e = \<lparr>v_raw = raw, v_parsed = p\<rparr> \<and> now2 clk \<le> e_expiresAt e)
         else snd (fst (handler K net dec clk (postRequest hs q cs) g)) = [buildPrompt q cs]
              \<and> net (buildPrompt q cs) = Inr raw \<and> p = parseReply dec raw"
proof -
  obtain rate g1 where rc: "rateCheck (getClientIp hs) (now1 clk) g = (rate, g1)"
    by (cases "rateCheck (getClientIp hs) (now1 clk) g")
  have c: "CACHE g1 = CACHE g"
    using rateCheck_CACHE [of "getClientIp hs" "now1 clk" g] rc by simp
  show ?thesis
    using assms rc c
    by (auto simp: handler_def postRequest_def respond_def rankCached_def rankRemote_def
                   cacheGet_def callOpenAI_def orEmpty_def Let_def
             split: if_splits option.splits sum.splits prod.splits)
qed

lemma promptLines_nth:
  assumes "i < length cs" and "i < 80"
  shows "promptLines q cs ! (i + 2) = candidateLine i (cs ! i)"
  using assms by (simp add: promptLines_def nth_append)

lemma elementAt_Some:
  assumes "elementAt xs x = Some y"
  shows "\<exists>i < length xs. x = of_nat i \<and> y = xs ! i"
proof -
  have a: "x = of_int \<lfloor>x\<rfloor>" "0 \<le> x" "nat \<lfloor>x\<rfloor> < length xs" "y = xs ! nat \<lfloor>x\<rfloor>"
    using assms by (auto simp: elementAt_def split: if_splits)
  have "0 \<le> \<lfloor>x\<rfloor>"
    using a(2) by simp
  then have "of_nat (nat \<lfloor>x\<rfloor>) = (of_int \<lfloor>x\<rfloor> :: rat)"
    by simp
  then show ?thesis
    using a by metis
qed

lemma localFallback_not_AIPicked: "localFallback txt search \<noteq> AIPicked best reason hq"
  by (simp add: localFallback_def split: promise.splits)

lemma resolveJudgment_AIPicked:
  assumes "resolveJudgment txt cands search parsed = AIPicked best reason hq"
  shows "\<exists>i < length cands. parsed = Some \<lparr>j_index = JNumber (of_nat i), j_reason = reason\<rparr>
            \<and> best = cands ! i"
proof -
  obtain j x where j: "parsed = Some j" "j_index j = JNumber x"
    and e: "elementAt cands x = Some best" and r: "reason = j_reason j"
    using assms
    by (auto simp: resolveJudgment_def localFallback_not_AIPicked
             split: option.splits jsvalue.splits if_splits)
  obtain i where i: "i < length cands" "x = of_nat i" "best = cands ! i"
    using elementAt_Some [OF e] by blast
  have "j = \<lparr>j_index = JNumber (of_nat i), j_reason = reason\<rparr>"
    using j(2) i(2) r by simp
  then show ?thesis
    using i j(1) by blast
qed

lemma projectCandidates_map_Some:
  "projectCandidates (map Some cs) = Inr (map (\<lambda>c. (orEmpty (w_text c), orEmpty (w_href c))) cs)"
  by (induction cs) simp_all

lemma cacheKeyOf_map_Some:
  "cacheKeyOf q (map Some cs)
     = Inr (q, map (\<lambda>c. (orEmpty (w_text c), orEmpty (w_href c))) (take 60 cs))"
  by (simp add: cacheKeyOf_def take_map projectCandidates_map_Some)

lemma truncated_length: "length (truncated cr) \<le> 80"
  by (simp add: truncated_def split: option.splits)

text \<open>Every cache entry was stored by a request of the run, for a list with the entry's key.\<close>

lemma handler_cache_step:
  assumes "CACHE (snd (handler K net dec clk req g)) key = Some e"
  shows "CACHE g key = Some e \<or> computedFor dec key (e_value e) (clk, net, req)"
proof -
  obtain rate g1 where rc: "rateCheck (getClientIp (rq_headers req)) (now1 clk) g = (rate, g1)"
    by (cases "rateCheck (getClientIp (rq_headers req)) (now1 clk) g")
  have c: "CACHE g1 = CACHE g"
    using rateCheck_CACHE [of "getClientIp (rq_headers req)" "now1 clk" g] rc by simp
  show ?thesis
    using assms rc c
    by (auto simp: handler_def rankCached_def rankRemote_def cacheGet_def cacheSet_def
                   callOpenAI_def computedFor_def Let_def
             split: if_splits option.splits sum.splits prod.splits)
qed

lemma serveAll_cache_origin:
  assumes "\<forall>key e. CACHE g key = Some e \<longrightarrow> (\<exists>ev \<in> S. computedFor dec key (e_value e) ev)"
  shows "\<forall>key e. CACHE (snd (serveAll K dec evs g)) key = Some e
           \<longrightarrow> (\<exists>ev \<in> S \<union> set evs. computedFor dec key (e_value e) ev)"
  using assms
proof (induction evs arbitrary: g S)
  case Nil
  then show ?case by simp
next
  case (Cons ev evs)
  obtain clk net req where ev: "ev = (clk, net, req)"
    by (cases ev)
  let ?g1 = "snd (handler K net dec clk req g)"
  have "\<forall>key e. CACHE ?g1 key = Some e
          \<longrightarrow> (\<exists>ev' \<in> insert ev S. computedFor dec key (e_value e) ev')"
    using handler_cache_step [of K net dec clk req g] Cons.prems ev by blast
  then have "\<forall>key e. CACHE (snd (serveAll K dec evs ?g1)) key = Some e
          \<longrightarrow> (\<exists>ev' \<in> insert ev S \<union> set evs. computedFor dec key (e_value e) ev')"
    by (rule Cons.IH)
  then show ?case
    unfolding ev serveAll_Cons by simp
qed

lemma cache_origin:
  assumes "CACHE (snd (serveAll K dec evs emptyGateway)) key = Some e"
  shows "\<exists>ev \<in> set evs. computedFor dec key (e_value e) ev"
proof -
  have "\<forall>key e. CACHE emptyGateway key = Some e
          \<longrightarrow> (\<exists>ev \<in> {}. computedFor dec key (e_value e) ev)"
    by (simp add: emptyGateway_def)
  then have "\<forall>key e. CACHE (snd (serveAll K dec evs emptyGateway)) key = Some e
          \<longrightarrow> (\<exists>ev \<in> {} \<union> set evs. computedFor dec key (e_value e) ev)"
    by (rule serveAll_cache_origin)
  then show ?thesis
    using assms by blast
qed

text \<open>
  C1, as stated, fails. The cache key holds the first 60 candidates only, while the prompt
  and the popup's list hold up to 80. The gateway ranks \<open>pageA\<close> for \<open>billing\<close> and the
  remote service, shown \<open>pageA\<close>, picks index 60 (\<open>Pay My Bill\<close>). One second later the
  popup sends \<open>pageB\<close>, which differs from \<open>pageA\<close> at index 60: the gateway answers from
  the cache without sending any prompt, and the popup applies the index to \<open>pageB\<close> and
  picks \<open>About Us\<close>, a candidate the remote service was never shown.
\<close>

theorem cached_judgment_counterexample:
  "snd (fst (handler testKey (pickService 60) (decodePick 60) (clockAt 1000)
               (rankRequest clientHeaders ''billing'' pageA) emptyGateway))
     = [buildPrompt ''billing'' (map Some pageA)]
   \<and> performSearch ''billing'' activeTab (Resolved (Some pageA)) contentSearch
        (serverRank testKey (pickService 60) (decodePick 60) (clockAt 1000) clientHeaders
           emptyGateway)
       = AIPicked wireNav [] ''Pay My Bill''
   \<and> fst (handler testKey noService (decodePick 60) (clockAt 2000)
            (rankRequest clientHeaders ''billing'' pageB) afterPageA)
       = (respond 200 (Ranked True (pickReply 60) (Some \<lparr>j_index = JNumber 60, j_reason = []\<rparr>)),
          [])
   \<and> performSearch ''billing'' activeTab (Resolved (Some pageB)) contentSearch
        (serverRank testKey noService (decodePick 60) (clockAt 2000) clientHeaders afterPageA)
       = AIPicked wireFooter [] ''About Us''
   \<and> truncated (Some pageB) = pageB
   \<and> truncated (Some pageA) = pageA
   \<and> pageB ! 60 = wireFooter
   \<and> pageA ! 60 = wireNav
   \<and> wireFooter \<noteq> wireNav"
  by code_simp

text \<open>
  C1, amended: when the orchestration layer selects a winner by the index of a judgment,
  the index is a whole number inside the popup's own truncated list (at most 80
  candidates), the list it sent with this request, and the winner is that list's element.
  When the judgment is fresh (\<open>cached: false\<close>), exactly one prompt was sent, built from
  that same list, and its line for the index shows the winner. When the judgment is
  served from the cache of a gateway that started empty, no prompt is sent, and the
  judgment was computed by an earlier request of the gateway's run: that request's remote
  service was sent the prompt built from its own query and candidate list and answered
  with the cached text, and its cache key, the query and the \<open>(text, href)\<close> pairs of the
  first 60 candidates, is the key of the present request. So the list a cached judgment
  is applied to agrees with the list it was computed for on the query and on those pairs;
  nothing more is guaranteed, and the two lists may differ in a candidate's type or from
  position 60 on.
\<close>

theorem honoured_index_within_sent_list:
  assumes "performSearch query tab (Resolved cr) search
             (serverRank K net dec clk hs (snd (serveAll K dec evs emptyGateway)))
             = AIPicked best reason hq"
  shows "\<exists>i cached raw.
           i < length (truncated cr) \<and> length (truncated cr) \<le> 80
           \<and> best = truncated cr ! i
           \<and> body (fst (fst (handler K net dec clk
                               (rankRequest hs (trim query) (truncated cr))
                               (snd (serveAll K dec evs emptyGateway)))))
               = Ranked cached raw (Some \<lparr>j_index = JNumber (of_nat i), j_reason = reason\<rparr>)
           \<and> (if cached
               then snd (fst (handler K net dec clk
                                (rankRequest hs (trim query) (truncated cr))
                                (snd (serveAll K dec evs emptyGateway)))) = []
                    \<and> (\<exists>e. CACHE (snd (serveAll K dec evs emptyGateway))
                               (trim query,
                                map (\<lambda>c. (orEmpty (w_text c), orEmpty (w_href c)))
                                  (take 60 (truncated cr))) = Some e
                           \<and> e_value e
                               = \<lparr>v_raw = raw,
                                  v_parsed = Some \<lparr>j_index = JNumber (of_nat i),
                                                   j_reason = reason\<rparr>\<rparr>
                           \<and> now2 clk \<le> e_expiresAt e)
                    \<and> (\<exists>clk0 net0 req0 b0 cs0.
                           (clk0, net0, req0) \<in> set evs
                           \<and> rq_body req0 = Some b0 \<and> b_candidates b0 = Some cs0
                           \<and> cacheKeyOf (orEmpty (b_query b0)) cs0
                               = Inr (trim query,
                                      map (\<lambda>c. (orEmpty (w_text c), orEmpty (w_href c)))
                                        (take 60 (truncated cr)))
                           \<and> net0 (buildPrompt (orEmpty (b_query b0)) cs0) = Inr raw
                           \<and> parseReply dec raw
                               = Some \<lparr>j_index = JNumber (of_nat i), j_reason = reason\<rparr>)
               else snd (fst (handler K net dec clk
                                (rankRequest hs (trim query) (truncated cr))
                                (snd (serveAll K dec evs emptyGateway))))
                      = [buildPrompt (trim query) (map Some (truncated cr))]
                    \<and> promptLines (trim query) (map Some (truncated cr)) ! (i + 2)
                        = candidateLine i (Some best))"
proof -
  let ?txt = "trim query"
  let ?cs = "truncated cr"
  let ?g = "snd (serveAll K dec evs emptyGateway)"
  let ?key = "(?txt, map (\<lambda>c. (orEmpty (w_text c), orEmpty (w_href c))) (take 60 ?cs))"
  let ?out = "fst (handler K net dec clk (rankRequest hs ?txt ?cs) ?g)"
  have r: "resolveJudgment ?txt ?cs search (parsedOf (body (fst ?out))) = AIPicked best reason hq"
    using assms
    by (auto simp: performSearch_def serverRank_def relay_def Let_def
                   localFallback_not_AIPicked
             split: if_splits promise.splits)
  obtain i where i: "i < length ?cs" "best = ?cs ! i"
    and p: "parsedOf (body (fst ?out)) = Some \<lparr>j_index = JNumber (of_nat i), j_reason = reason\<rparr>"
    using resolveJudgment_AIPicked [OF r] by blast
  let ?j = "\<lparr>j_index = JNumber (of_nat i), j_reason = reason\<rparr>"
  obtain cached raw where b: "body (fst ?out) = Ranked cached raw (Some ?j)"
    using p by (auto simp: parsedOf_def split: payload.splits)
  have l: "length ?cs \<le> 80"
    by (rule truncated_length)
  note h = handler_ranked [of K net dec clk hs ?txt "map Some ?cs" ?g cached raw "Some ?j"]
  have k: "cacheKeyOf ?txt (map Some ?cs) = Inr ?key"
    by (rule cacheKeyOf_map_Some)
  have n: "promptLines ?txt (map Some ?cs) ! (i + 2) = candidateLine i (Some best)"
    using promptLines_nth [of i "map Some ?cs" ?txt] i l by simp
  show ?thesis
  proof (cases cached)
    case True
    then obtain e where e: "CACHE ?g ?key = Some e"
      "e_value e = \<lparr>v_raw = raw, v_parsed = Some ?j\<rparr>" "now2 clk \<le> e_expiresAt e"
      and c: "snd ?out = []"
      using b h k unfolding rankRequest_def by auto
    obtain ev where ev: "ev \<in> set evs" "computedFor dec ?key (e_value e) ev"
      using cache_origin [OF e(1)] by blast
    obtain clk0 net0 req0 where ev3: "ev = (clk0, net0, req0)"
      by (cases ev)
    obtain b0 cs0 where o: "rq_body req0 = Some b0" "b_candidates b0 = Some cs0"
      "cacheKeyOf (orEmpty (b_query b0)) cs0 = Inr ?key"
      "net0 (buildPrompt (orEmpty (b_query b0)) cs0) = Inr raw"
      "parseReply dec raw = Some ?j"
      using ev(2) e(2) unfolding ev3
      by (auto simp: computedFor_def split: option.splits)
    have origin: "\<exists>clk0 net0 req0 b0 cs0.
                    (clk0, net0, req0) \<in> set evs
                    \<and> rq_body req0 = Some b0 \<and> b_candidates b0 = Some cs0
                    \<and> cacheKeyOf (orEmpty (b_query b0)) cs0 = Inr ?key
                    \<and> net0 (buildPrompt (orEmpty (b_query b0)) cs0) = Inr raw
                    \<and> parseReply dec raw = Some ?j"
      using ev(1) o unfolding ev3 by blast
    have live: "\<exists>e. CACHE ?g ?key = Some e
                  \<and> e_value e = \<lparr>v_raw = raw, v_parsed = Some ?j\<rparr> \<and> now2 clk \<le> e_expiresAt e"
      using e by blast
    show ?thesis
      using i l b c live origin True
      by (intro exI [of _ i] exI [of _ True] exI [of _ raw]) simp
  next
    case False
    then show ?thesis
      using i l b h n unfolding rankRequest_def
      by (intro exI [of _ i] exI [of _ False] exI [of _ raw]) auto
  qed
qed

theorem honoured_index_within_sent_list_witness:
  "performSearch ''billing'' activeTab (Resolved (Some pageB)) contentSearch
     (serverRank testKey noService (decodePick 60) (clockAt 2000) clientHeaders
        (snd (serveAll testKey (decodePick 60) pageARun emptyGateway)))
     = AIPicked wireFooter [] ''About Us''
   \<and> (\<exists>i cached raw. i < length (truncated (Some pageB))
         \<and> wireFooter = truncated (Some pageB) ! i
         \<and> body (fst (fst (handler testKey noService (decodePick 60) (clockAt 2000)
                             (rankRequest clientHeaders (trim ''billing'')
                                (truncated (Some pageB)))
                             (snd (serveAll testKey (decodePick 60) pageARun emptyGateway)))))
             = Ranked cached raw (Some \<lparr>j_index = JNumber (of_nat i), j_reason = []\<rparr>))"
proof -
  have a: "performSearch ''billing'' activeTab (Resolved (Some pageB)) contentSearch
             (serverRank testKey noService (decodePick 60) (clockAt 2000) clientHeaders
                (snd (serveAll testKey (decodePick 60) pageARun emptyGateway)))
             = AIPicked wireFooter [] ''About Us''"
    by code_simp
  show ?thesis
    using honoured_index_within_sent_list [OF a] a by blast
qed

section \<open>Properties of the candidate extractor\<close>

lemma scanAnchors_all:
  assumes "list_all (\<lambda>a. el_visible a \<and> el_href a \<noteq> []) as"
    and "distinct (map (\<lambda>a. candidateKey (linkOf a)) as)"
    and "(\<lambda>a. candidateKey (linkOf a)) ` set as \<inter> seen sc = {}"
    and "length (candidates sc) + length as \<le> MAX_CANDIDATES"
  shows "candidates (scanAnchors as sc) = candidates sc @ map linkOf as
         \<and> seen (scanAnchors as sc) = seen sc \<union> (\<lambda>a. candidateKey (linkOf a)) ` set as"
  using assms
proof (induction as arbitrary: sc)
  case Nil
  then show ?case by simp
next
  case (Cons a as)
  let ?sc1 = "\<lparr>candidates = candidates sc @ [linkOf a],
              seen = insert (candidateKey (linkOf a)) (seen sc)\<rparr>"
  have fresh: "candidateKey (linkOf a) \<notin> seen sc"
    using Cons.prems(3) by auto
  then have push: "pushCandidate (linkOf a) sc = ?sc1"
    by (simp add: pushCandidate_def)
  have va: "el_visible a" "el_href a \<noteq> []"
    using Cons.prems(1) by simp_all
  show ?case
  proof (cases "MAX_CANDIDATES \<le> length (candidates ?sc1)")
    case True
    then have "as = []"
      using Cons.prems(4) by (cases as) auto
    then show ?thesis
      using va push True by (simp add: Let_def)
  next
    case False
    have ih: "candidates (scanAnchors as ?sc1) = candidates ?sc1 @ map linkOf as
              \<and> seen (scanAnchors as ?sc1)
                  = seen ?sc1 \<union> (\<lambda>a. candidateKey (linkOf a)) ` set as"
    proof (rule Cons.IH)
      show "list_all (\<lambda>a. el_visible a \<and> el_href a \<noteq> []) as"
        using Cons.prems(1) by simp
      show "distinct (map (\<lambda>a. candidateKey (linkOf a)) as)"
        using Cons.prems(2) by simp
      show "(\<lambda>a. candidateKey (linkOf a)) ` set as \<inter> seen ?sc1 = {}"
        using Cons.prems(2,3) by auto
      show "length (candidates ?sc1) + length as \<le> MAX_CANDIDATES"
        using Cons.prems(4) by simp
    qed
    show ?thesis
      using va push False ih by (simp add: Let_def)
  qed
qed

lemma linkEl_key_inj:
  assumes "candidateKey (linkOf (linkEl i)) = candidateKey (linkOf (linkEl j))"
  shows "i = j"
proof -
  have "length (candidateKey (linkOf (linkEl i))) = length (candidateKey (linkOf (linkEl j)))"
    using assms by simp
  then show ?thesis
    by (simp add: candidateKey_def linkOf_def linkEl_def orEmpty_def typeName_def)
qed

text \<open>
  C7: the code does not keep the cap of 800. Each of the three loops tests
  \<open>candidates.length >= MAX_CANDIDATES\<close> only after it has pushed a candidate, and the
  loops over the buttons and the headings start without a test. On a page with 800
  different visible links, a button and a heading, the extractor returns all 802 of them.
\<close>

theorem getSearchCandidates_exceeds_cap:
  "getSearchCandidates bigPage = map (\<lambda>i. linkOf (linkEl i)) [0 ..< 800]
                                   @ [buttonOf buttonEl, headingOf headEl]
   \<and> length (getSearchCandidates bigPage) = 802
   \<and> MAX_CANDIDATES < length (getSearchCandidates bigPage)"
proof -
  let ?as = "map linkEl [0 ..< 800]"
  let ?sc0 = "\<lparr>candidates = [], seen = {}\<rparr>"
  let ?keys = "(\<lambda>a. candidateKey (linkOf a)) ` set ?as"
  have d: "distinct (map (\<lambda>a. candidateKey (linkOf a)) ?as)"
    unfolding map_map distinct_map
    by (auto simp: inj_on_def dest: linkEl_key_inj)
  have a: "candidates (scanAnchors ?as ?sc0) = candidates ?sc0 @ map linkOf ?as
           \<and> seen (scanAnchors ?as ?sc0) = seen ?sc0 \<union> ?keys"
    by (rule scanAnchors_all [OF _ d]) (simp_all add: list_all_iff linkEl_def MAX_CANDIDATES_def)
  define sc1 where "sc1 = scanAnchors ?as ?sc0"
  have c1: "candidates sc1 = map linkOf ?as" and s1: "seen sc1 = ?keys"
    using a by (simp_all add: sc1_def)
  have kb: "candidateKey (buttonOf buttonEl) \<notin> seen sc1"
    unfolding s1 by (auto simp: candidateKey_def buttonOf_def linkOf_def typeName_def)
  define sc2 where "sc2 = scanButtons [buttonEl] sc1"
  have c2: "candidates sc2 = map linkOf ?as @ [buttonOf buttonEl]"
    and s2: "seen sc2 = insert (candidateKey (buttonOf buttonEl)) ?keys"
    using kb c1 s1 by (simp_all add: sc2_def pushCandidate_def Let_def buttonEl_def)
  have kh: "candidateKey (headingOf headEl) \<notin> seen sc2"
    unfolding s2
    by (auto simp: candidateKey_def buttonOf_def headingOf_def linkOf_def typeName_def)
  have c3: "candidates (scanHeads [headEl] sc2)
              = map linkOf ?as @ [buttonOf buttonEl, headingOf headEl]"
    using kh c2 by (simp add: pushCandidate_def Let_def headEl_def)
  have g: "getSearchCandidates bigPage = map linkOf ?as @ [buttonOf buttonEl, headingOf headEl]"
    using c3 by (simp add: getSearchCandidates_def bigPage_def sc2_def sc1_def)
  show ?thesis
    unfolding g by (simp add: MAX_CANDIDATES_def comp_def)
qed

text \<open>
  What does hold of the cap: the array never grows by more than one element past it in
  a loop, so the extractor returns at most 802 candidates.
\<close>

lemma pushCandidate_length:
  "length (candidates (pushCandidate obj sc)) \<le> Suc (length (candidates sc))"
  by (simp add: pushCandidate_def)

lemma scanAnchors_length:
  "length (candidates (scanAnchors as sc)) \<le> max (Suc (length (candidates sc))) MAX_CANDIDATES"
proof (induction as arbitrary: sc)
  case Nil
  then show ?case by simp
next
  case (Cons a as)
  note p = pushCandidate_length [of "linkOf a" sc]
  note ih1 = Cons.IH [of sc]
  note ih2 = Cons.IH [of "pushCandidate (linkOf a) sc"]
  show ?case
    using p ih1 ih2 by (simp add: Let_def) linarith
qed

lemma scanButtons_length:
  "length (candidates (scanButtons bs sc)) \<le> max (Suc (length (candidates sc))) MAX_CANDIDATES"
proof (induction bs arbitrary: sc)
  case Nil
  then show ?case by simp
next
  case (Cons b bs)
  note p = pushCandidate_length [of "buttonOf b" sc]
  note ih1 = Cons.IH [of sc]
  note ih2 = Cons.IH [of "pushCandidate (buttonOf b) sc"]
  show ?case
    using p ih1 ih2 by (simp add: Let_def) linarith
qed

lemma scanHeads_length:
  "length (candidates (scanHeads hs sc)) \<le> max (Suc (length (candidates sc))) MAX_CANDIDATES"
proof (induction hs arbitrary: sc)
  case Nil
  then show ?case by simp
next
  case (Cons h hs)
  note p = pushCandidate_length [of "headingOf h" sc]
  note ih1 = Cons.IH [of sc]
  note ih2 = Cons.IH [of "pushCandidate (headingOf h) sc"]
  show ?case
    using p ih1 ih2 by (simp add: Let_def) linarith
qed

lemma getSearchCandidates_length: "length (getSearchCandidates pg) \<le> MAX_CANDIDATES + 2"
proof -
  let ?sc0 = "\<lparr>candidates = [], seen = {}\<rparr>"
  let ?sc1 = "scanAnchors (anchors pg) ?sc0"
  let ?sc2 = "scanButtons (buttons pg) ?sc1"
  have "length (candidates ?sc1) \<le> MAX_CANDIDATES"
    using scanAnchors_length [of "anchors pg" ?sc0] by (simp add: MAX_CANDIDATES_def)
  moreover have "length (candidates ?sc2) \<le> max (Suc (length (candidates ?sc1))) MAX_CANDIDATES"
    by (rule scanButtons_length)
  moreover have "length (candidates (scanHeads (heads pg) ?sc2))
                   \<le> max (Suc (length (candidates ?sc2))) MAX_CANDIDATES"
    by (rule scanHeads_length)
  ultimately show ?thesis
    unfolding getSearchCandidates_def by linarith
qed

end
